theory Spec2Isabelle
  imports Main "HOL-Library.Word"
begin

unbundle bit_operations_syntax

section \<open>ANTSDR DMA driver: frame extraction, payload ring and packetizer\<close>

text \<open>
  A shallow embedding of \<^verbatim>\<open>src/drivers/antsdr_dma/antsdr_dma.c\<close>.
  Buffers are byte lists, a pointer into a buffer is the buffer together with a byte
  offset (or, for the payload ring, the index of the slot), \<^verbatim>\<open>uint32_t\<close> and
  \<^verbatim>\<open>unsigned int\<close> counters are 32-bit words, and \<^verbatim>\<open>unsigned long\<close> statistics
  are 32-bit words as on the 32-bit ARM target of the driver. Sizes and indices
  (\<^verbatim>\<open>size_t\<close>, ring positions) are natural numbers: they are bounded by the sizes of
  the buffers they index. Functions that mutate \<^verbatim>\<open>struct antsdr_dma_dev\<close> take the
  device state and return the new one.
\<close>

subsection \<open>Constants\<close>

type_synonym u8 = "8 word"
type_synonym u32 = "32 word"
type_synonym ulong = "32 word"

definition ANTSDR_PACKET_START_MARKER :: u32 where "ANTSDR_PACKET_START_MARKER = 0xABCD1234"
definition ANTSDR_PACKET_END_MARKER :: u32 where "ANTSDR_PACKET_END_MARKER = 0x5678DCBA"
definition ANTSDR_MAX_PAYLOAD_SIZE :: nat where "ANTSDR_MAX_PAYLOAD_SIZE = 1360"
definition ANTSDR_PACKET_HEADER_SIZE :: nat where "ANTSDR_PACKET_HEADER_SIZE = 48"

definition RING_BUFFER_COUNT :: nat where "RING_BUFFER_COUNT = 256"
definition RING_BUFFER_SIZE :: nat where "RING_BUFFER_SIZE = 1600"
definition FRAME_DETECTION_BUFFER_SIZE :: nat where "FRAME_DETECTION_BUFFER_SIZE = 64 * 1024"

definition FPGA_HEADER_MARKER_1 :: u32 where "FPGA_HEADER_MARKER_1 = 0xFEFFFFFF"
definition FPGA_HEADER_MARKER_2 :: u32 where "FPGA_HEADER_MARKER_2 = 0xFFFFFFFE"
definition FPGA_FOOTER_MARKER :: u32 where "FPGA_FOOTER_MARKER = 0xFFFFFFFF"
definition FPGA_LONG_PULSE_WORDS :: nat where "FPGA_LONG_PULSE_WORDS = 403"
definition FPGA_SHORT_PULSE_WORDS :: nat where "FPGA_SHORT_PULSE_WORDS = 53"

datatype errno = EINVAL | ENOSPC | ENODATA | ENOMEM | EFAULT

subsection \<open>Device state\<close>

text \<open>\<^verbatim>\<open>struct antsdr_dma_stats\<close>, the structure copied out by \<^verbatim>\<open>ANTSDR_IOC_GET_STATS\<close>.\<close>

record antsdr_dma_stats =
  transfers_completed :: ulong
  bytes_transferred :: ulong
  udp_packets_sent :: ulong
  errors :: ulong
  valid_frames :: ulong
  invalid_frames :: ulong
  extracted_frames :: ulong

text \<open>
  The fields of \<^verbatim>\<open>struct antsdr_dma_dev\<close> that the extraction and packetizing
  pipeline reads or writes. \<open>ring_buffers\<close> is the array of slots with their bytes;
  \<open>raw_frame_fifo\<close> holds the queued raw transfers, oldest first;
  \<open>sock\<close> is whether the socket pointer is non-null.
\<close>

record antsdr_dma_dev =
  stats :: antsdr_dma_stats
  ring_buffers :: "u8 list list"
  ring_size :: nat
  ring_head :: nat
  ring_tail :: nat
  ring_count :: nat
  ring_buffer_size :: nat
  sock :: bool
  dest_set :: bool
  udp_work_pending :: bool
  raw_frame_fifo :: "u8 list list"
  frame_work_pending :: bool
  packet_sequence_number :: u32
  frame_id_counter :: u32
  pulse_mode :: nat
  frame_detection_buffer :: "u8 list"
  frame_buffer_size :: nat
  frame_buffer_used :: nat
  frames_accumulated :: nat
  total_frames_processed :: u32
  missing_frame_count :: u32
  last_frame_counter :: u32
  first_frame_received :: bool

subsection \<open>Memory helpers\<close>

text \<open>
  \<^verbatim>\<open>memcpy(dst, src, n)\<close>: the first \<open>n\<close> bytes of \<open>dst\<close> are replaced by the first
  \<open>n\<close> bytes of \<open>src\<close>. Every caller in the driver passes \<open>n\<close> no larger than either
  buffer.
\<close>

definition memcpy :: "u8 list \<Rightarrow> u8 list \<Rightarrow> nat \<Rightarrow> u8 list" where
  "memcpy dst src n = take n src @ drop n dst"

text \<open>A little-endian 32-bit load: \<^verbatim>\<open>((const uint32_t *)data)[i]\<close>.\<close>

definition le32 :: "u8 \<Rightarrow> u8 \<Rightarrow> u8 \<Rightarrow> u8 \<Rightarrow> u32" where
  "le32 b0 b1 b2 b3 =
     ucast b0 OR push_bit 8 (ucast b1) OR push_bit 16 (ucast b2) OR push_bit 24 (ucast b3)"

definition word_at :: "u8 list \<Rightarrow> nat \<Rightarrow> u32" where
  "word_at data i = le32 (data ! (4 * i)) (data ! (4 * i + 1)) (data ! (4 * i + 2)) (data ! (4 * i + 3))"

subsection \<open>Payload ring\<close>

text \<open>
  \<^verbatim>\<open>antsdr_ring_init\<close>. \<open>mem\<close> is what the allocator hands out: \<open>None\<close> when an
  allocation fails, otherwise the \<^verbatim>\<open>RING_BUFFER_COUNT\<close> slots of
  \<^verbatim>\<open>RING_BUFFER_SIZE\<close> bytes each, with whatever bytes \<^verbatim>\<open>kmalloc\<close> left in them.
\<close>

definition antsdr_ring_init :: "antsdr_dma_dev \<Rightarrow> u8 list list option \<Rightarrow> (errno + unit) \<times> antsdr_dma_dev" where
  "antsdr_ring_init d mem =
     (let d1 = d\<lparr>ring_size := RING_BUFFER_COUNT, ring_buffer_size := RING_BUFFER_SIZE,
                  ring_head := 0, ring_tail := 0, ring_count := 0\<rparr>
      in case mem of
           None \<Rightarrow> (Inl ENOMEM, d1)
         | Some bufs \<Rightarrow> (Inr (), d1\<lparr>ring_buffers := bufs\<rparr>))"

text \<open>\<^verbatim>\<open>antsdr_ring_put\<close>: \<open>data\<close> are the bytes readable at the source pointer.\<close>

definition antsdr_ring_put :: "antsdr_dma_dev \<Rightarrow> u8 list \<Rightarrow> nat \<Rightarrow> (errno + unit) \<times> antsdr_dma_dev" where
  "antsdr_ring_put d data sz =
     (if sz > ring_buffer_size d then (Inl EINVAL, d)
      else if ring_count d \<ge> ring_size d then (Inl ENOSPC, d)
      else
        let ring_buffer = ring_buffers d ! ring_head d;
            next_head = (ring_head d + 1) mod ring_size d
        in (Inr (), d\<lparr>ring_buffers := (ring_buffers d)[ring_head d := memcpy ring_buffer data sz],
                       ring_head := next_head,
                       ring_count := ring_count d + 1\<rparr>))"

text \<open>
  \<^verbatim>\<open>antsdr_ring_get\<close>: the state is not changed. The pointer handed to the consumer is
  the slot at the tail, here its index; the size is the slot size.
\<close>

definition antsdr_ring_get :: "antsdr_dma_dev \<Rightarrow> errno + (nat \<times> nat)" where
  "antsdr_ring_get d =
     (if ring_count d = 0 then Inl ENODATA
      else Inr (ring_tail d, ring_buffer_size d))"

text \<open>\<^verbatim>\<open>antsdr_ring_return_buffer\<close>.\<close>

definition antsdr_ring_return_buffer :: "antsdr_dma_dev \<Rightarrow> antsdr_dma_dev" where
  "antsdr_ring_return_buffer d =
     (if ring_count d > 0
      then d\<lparr>ring_tail := (ring_tail d + 1) mod ring_size d, ring_count := ring_count d - 1\<rparr>
      else d)"

subsection \<open>Gap tracking\<close>

text \<open>
  The reset of the gap-tracking state in \<^verbatim>\<open>antsdr_dma_start_streaming\<close>.
\<close>

definition gap_reset :: "antsdr_dma_dev \<Rightarrow> antsdr_dma_dev" where
  "gap_reset d = d\<lparr>missing_frame_count := 0, last_frame_counter := 0, first_frame_received := False\<rparr>"

text \<open>
  The gap-based missing frame detection of \<^verbatim>\<open>antsdr_parse_fpga_frame\<close> (step 3),
  for the frame counter read from the word before the footer. All arithmetic is
  \<^verbatim>\<open>uint32_t\<close>.
\<close>

definition gap_detection :: "antsdr_dma_dev \<Rightarrow> u32 \<Rightarrow> antsdr_dma_dev" where
  "gap_detection d frame_counter =
     (if \<not> first_frame_received d
      then d\<lparr>last_frame_counter := frame_counter, first_frame_received := True\<rparr>
      else
        let expected_counter = last_frame_counter d + 1;
            d1 = (if frame_counter > expected_counter
                  then d\<lparr>missing_frame_count := missing_frame_count d + (frame_counter - expected_counter)\<rparr>
                  else d)
        in d1\<lparr>last_frame_counter := frame_counter\<rparr>)"

subsection \<open>Frame accumulation buffer\<close>

text \<open>\<^verbatim>\<open>memcpy(dst + off, src, n)\<close>.\<close>

definition memcpy_at :: "u8 list \<Rightarrow> nat \<Rightarrow> u8 list \<Rightarrow> nat \<Rightarrow> u8 list" where
  "memcpy_at dst off src n = take off dst @ take n src @ drop (off + n) dst"


text \<open>\<^verbatim>\<open>antsdr_frame_buffer_add\<close>.\<close>

definition antsdr_frame_buffer_add :: "antsdr_dma_dev \<Rightarrow> u8 list \<Rightarrow> nat \<Rightarrow> (errno + unit) \<times> antsdr_dma_dev" where
  "antsdr_frame_buffer_add d data sz =
     (if frame_buffer_used d + sz > frame_buffer_size d
      then (Inl ENOSPC, d\<lparr>frame_buffer_used := 0, frames_accumulated := 0\<rparr>)
      else (Inr (), d\<lparr>frame_detection_buffer :=
                            memcpy_at (frame_detection_buffer d) (frame_buffer_used d) data sz,
                          frame_buffer_used := frame_buffer_used d + sz,
                          frames_accumulated := frames_accumulated d + 1\<rparr>))"

text \<open>
  The statistics update of a frame queued for transmission: \<^verbatim>\<open>valid_frames++\<close>,
  \<^verbatim>\<open>extracted_frames++\<close>.
\<close>

definition count_valid_frame :: "antsdr_dma_stats \<Rightarrow> antsdr_dma_stats" where
  "count_valid_frame s = s\<lparr>valid_frames := valid_frames s + 1, extracted_frames := extracted_frames s + 1\<rparr>"

text \<open>
  The search loop of \<^verbatim>\<open>antsdr_frame_buffer_process\<close>:
  \<^verbatim>\<open>for (i = 0; i < word_count - 1; i++)\<close>, with \<^verbatim>\<open>i += expected_frame_size - 1\<close>
  after a frame found at \<open>i\<close>. The inner search for a misaligned footer only writes a
  debug message and has no other effect. \<open>expected_frame_size\<close> is 53 or 403.
\<close>

function frame_buffer_search :: "nat \<Rightarrow> nat \<Rightarrow> nat \<Rightarrow> nat \<Rightarrow> antsdr_dma_dev \<Rightarrow> nat \<times> antsdr_dma_dev" where
  "frame_buffer_search word_count expected_frame_size i frames_found d =
     (if i < word_count - 1 then
        let wordsb = frame_detection_buffer d in
        if word_at wordsb i = FPGA_HEADER_MARKER_1 \<or> word_at wordsb i = FPGA_HEADER_MARKER_2 then
          if i + expected_frame_size \<le> word_count then
            let footer_pos = i + expected_frame_size - 1 in
            if word_at wordsb footer_pos = FPGA_FOOTER_MARKER then
              let payload = drop (4 * (i + 1)) wordsb;
                  payload_len = (expected_frame_size - 2) * 4;
                  (ret, d1) = antsdr_ring_put d payload payload_len;
                  (frames_found1, d2) =
                    (if ret = Inr ()
                     then (frames_found + 1,
                           d1\<lparr>stats := count_valid_frame (stats d1), udp_work_pending := True\<rparr>)
                     else (frames_found, d1))
              in frame_buffer_search word_count expected_frame_size
                   (i + (expected_frame_size - 1) + 1) frames_found1 d2
            else frame_buffer_search word_count expected_frame_size (i + 1) frames_found d
          else frame_buffer_search word_count expected_frame_size (i + 1) frames_found d
        else frame_buffer_search word_count expected_frame_size (i + 1) frames_found d
      else (frames_found, d))"
  by pat_completeness auto
termination
  by (relation "measure (\<lambda>(word_count, e, i, f, d). word_count - i)") auto

declare frame_buffer_search.simps [simp del]

text \<open>\<^verbatim>\<open>antsdr_frame_buffer_process\<close>: returns the number of frames found.\<close>

definition antsdr_frame_buffer_process :: "antsdr_dma_dev \<Rightarrow> nat \<times> antsdr_dma_dev" where
  "antsdr_frame_buffer_process d =
     (if frame_buffer_used d < 8 then (0, d)
      else
        let word_count = frame_buffer_used d div 4;
            expected_frame_size = (if pulse_mode d = 0 then FPGA_SHORT_PULSE_WORDS else FPGA_LONG_PULSE_WORDS);
            (frames_found, d1) = frame_buffer_search word_count expected_frame_size 0 0 d
        in (frames_found, d1\<lparr>frame_buffer_used := 0, frames_accumulated := 0\<rparr>))"

subsection \<open>Frame extractor\<close>

text \<open>
  Step 1 of \<^verbatim>\<open>antsdr_parse_fpga_frame\<close>: one pass over the words of the transfer,
  keeping the first header position and the last footer position; \<open>-1\<close> is "not found".
\<close>

definition scan_step :: "u8 list \<Rightarrow> nat \<Rightarrow> int \<times> int \<Rightarrow> int \<times> int" where
  "scan_step data i hf =
     (let w = word_at data i;
          header_pos = (if (w = FPGA_HEADER_MARKER_1 \<or> w = FPGA_HEADER_MARKER_2) \<and> fst hf = -1
                        then int i else fst hf);
          footer_pos = (if w = FPGA_FOOTER_MARKER then int i else snd hf)
      in (header_pos, footer_pos))"

definition find_markers :: "u8 list \<Rightarrow> int \<times> int" where
  "find_markers data = fold (scan_step data) [0 ..< length data div 4] (-1, -1)"

text \<open>
  The outcome of \<^verbatim>\<open>antsdr_parse_fpga_frame\<close>, one constructor per return statement.
  \<open>Frame_Extracted off len\<close> is the successful return with \<^verbatim>\<open>*payload = data + off\<close>
  and \<^verbatim>\<open>*payload_len = len\<close>; \<open>Buffer_Frames_Found n\<close> is the return of 0 after the
  accumulation buffer gave \<open>n > 0\<close> frames, which leaves \<^verbatim>\<open>*payload\<close> and
  \<^verbatim>\<open>*payload_len\<close> as they were.
\<close>

datatype parse_result =
    Frame_Extracted nat nat
  | Frame_Too_Short
  | Length_Mismatch
  | Buffer_Frames_Found nat
  | Incomplete_Frame
  | No_Markers

text \<open>The C return value: 0 on success, -1 otherwise.\<close>

fun parse_ret :: "parse_result \<Rightarrow> int" where
  "parse_ret (Frame_Extracted off len) = 0"
| "parse_ret (Buffer_Frames_Found n) = 0"
| "parse_ret Frame_Too_Short = -1"
| "parse_ret Length_Mismatch = -1"
| "parse_ret Incomplete_Frame = -1"
| "parse_ret No_Markers = -1"

definition expected_frame_words :: "antsdr_dma_dev \<Rightarrow> nat" where
  "expected_frame_words d = (if pulse_mode d \<noteq> 0 then FPGA_LONG_PULSE_WORDS else FPGA_SHORT_PULSE_WORDS)"

text \<open>
  \<^verbatim>\<open>antsdr_parse_fpga_frame\<close> on a transfer \<open>data\<close> of \<open>length data\<close> bytes. The debug
  log and the frame export are compiled out (\<^verbatim>\<open>ANTSDR_DEBUG_CONSOLE\<close> and
  \<^verbatim>\<open>ANTSDR_ENABLE_FRAME_EXPORT\<close> are 0) and change no state.
\<close>

definition antsdr_parse_fpga_frame :: "antsdr_dma_dev \<Rightarrow> u8 list \<Rightarrow> antsdr_dma_dev \<times> parse_result" where
  "antsdr_parse_fpga_frame d data =
     (let d1 = d\<lparr>total_frames_processed := total_frames_processed d + 1\<rparr>;
          (header_pos, footer_pos) = find_markers data
      in
        if header_pos \<noteq> -1 \<and> footer_pos \<noteq> -1 then
          let actual_frame_words = footer_pos - header_pos + 1 in
          if actual_frame_words = int (expected_frame_words d1) then
            let d2 = (if footer_pos > header_pos + 1
                      then gap_detection d1 (word_at data (nat (footer_pos - 1)))
                      else d1)
            in if actual_frame_words \<ge> 3
               then (d2, Frame_Extracted (4 * nat (header_pos + 1)) (nat ((actual_frame_words - 3) * 4)))
               else (d2, Frame_Too_Short)
          else (d1, Length_Mismatch)
        else if header_pos \<noteq> -1 then
          let (ret, d2) = antsdr_frame_buffer_add d1 data (length data) in
          if ret = Inr () then
            if frames_accumulated d2 \<ge> 3 \<or> frame_buffer_used d2 \<ge> FRAME_DETECTION_BUFFER_SIZE div 2 then
              let (found_frames, d3) = antsdr_frame_buffer_process d2 in
              if found_frames > 0 then (d3, Buffer_Frames_Found found_frames)
              else (d3, Incomplete_Frame)
            else (d2, Incomplete_Frame)
          else (d2, Incomplete_Frame)
        else (d1, No_Markers))"

subsection \<open>Frame worker\<close>

text \<open>
  The local variables \<^verbatim>\<open>payload\<close> and \<^verbatim>\<open>payload_len\<close> of \<^verbatim>\<open>antsdr_frame_work\<close>:
  \<open>cur_payload\<close> are the bytes readable at the payload pointer, \<open>cur_payload_len\<close> the
  length. They are declared outside the loop and written only by a successful extraction.
\<close>

record frame_work_locals =
  cur_payload :: "u8 list"
  cur_payload_len :: nat

text \<open>
  One iteration of the loop of \<^verbatim>\<open>antsdr_frame_work\<close>, for the dequeued transfer
  \<open>data\<close>. The driver calls \<^verbatim>\<open>kfree(raw_frame.data)\<close> right after parsing and before
  \<^verbatim>\<open>antsdr_ring_put\<close> copies from the payload pointer, which points into the freed
  block. \<open>freed\<close> are the bytes that block holds when it is read after the
  \<^verbatim>\<open>kfree\<close>; nothing relates them to \<open>data\<close>.
\<close>

definition frame_work_one ::
  "antsdr_dma_dev \<Rightarrow> frame_work_locals \<Rightarrow> u8 list \<Rightarrow> u8 list \<Rightarrow> antsdr_dma_dev \<times> frame_work_locals" where
  "frame_work_one d l data freed =
     (let (d1, res) = antsdr_parse_fpga_frame d data;
          l1 = (case res of
                  Frame_Extracted off len \<Rightarrow> \<lparr>cur_payload = drop off freed, cur_payload_len = len\<rparr>
                | _ \<Rightarrow> l)
      in
        if parse_ret res = 0 then
          let (ret, d2) = antsdr_ring_put d1 (cur_payload l1) (cur_payload_len l1) in
          if ret = Inr ()
          then (d2\<lparr>udp_work_pending := True, stats := count_valid_frame (stats d2)\<rparr>, l1)
          else (d2\<lparr>stats := (stats d2)\<lparr>errors := errors (stats d2) + 1\<rparr>\<rparr>, l1)
        else (d1\<lparr>stats := (stats d1)\<lparr>invalid_frames := invalid_frames (stats d1) + 1\<rparr>\<rparr>, l1))"

text \<open>
  \<^verbatim>\<open>while (processed_frames < 50)\<close>: the first argument is the number of transfers
  the invocation may still process. \<open>after_kfree\<close> gives, for a transfer, the bytes its
  block holds after it was freed.
\<close>

fun frame_work_loop ::
  "(u8 list \<Rightarrow> u8 list) \<Rightarrow> nat \<Rightarrow> antsdr_dma_dev \<Rightarrow> frame_work_locals \<Rightarrow> antsdr_dma_dev \<times> frame_work_locals" where
  "frame_work_loop after_kfree 0 d l = (d, l)"
| "frame_work_loop after_kfree (Suc n) d l =
     (case raw_frame_fifo d of
        [] \<Rightarrow> (d, l)
      | raw_frame # rest \<Rightarrow>
          let (d1, l1) = frame_work_one (d\<lparr>raw_frame_fifo := rest\<rparr>) l raw_frame (after_kfree raw_frame)
          in frame_work_loop after_kfree n d1 l1)"

text \<open>\<^verbatim>\<open>antsdr_frame_work\<close>; \<open>l0\<close> are the uninitialised locals.\<close>

definition antsdr_frame_work :: "(u8 list \<Rightarrow> u8 list) \<Rightarrow> antsdr_dma_dev \<Rightarrow> frame_work_locals \<Rightarrow> antsdr_dma_dev" where
  "antsdr_frame_work after_kfree d l0 =
     (let (d1, l1) = frame_work_loop after_kfree 50 d l0
      in if raw_frame_fifo d1 \<noteq> [] then d1 else d1\<lparr>frame_work_pending := False\<rparr>)"

subsection \<open>Packetizer\<close>

text \<open>
  \<^verbatim>\<open>struct antsdr_packet_header\<close>, twelve 32-bit fields. The values are those given to
  \<^verbatim>\<open>cpu_to_be32\<close>; on the wire each is sent most significant byte first.
\<close>

record antsdr_packet_header =
  hdr_start_marker :: u32
  hdr_sequence_number :: u32
  hdr_total_length :: u32
  hdr_payload_length :: u32
  hdr_frame_id :: u32
  hdr_fragment_offset :: u32
  hdr_fragment_count :: u32
  hdr_fragment_index :: u32
  hdr_frame_payload_total :: u32
  hdr_missing_frame_count :: u32
  hdr_checksum :: u32
  hdr_end_marker :: u32

text \<open>A datagram handed to \<^verbatim>\<open>kernel_sendmsg\<close>: the header and the fragment bytes.\<close>

record antsdr_packet =
  pkt_header :: antsdr_packet_header
  pkt_payload :: "u8 list"

text \<open>
  The kernel's \<^verbatim>\<open>crc32(seed, p, len)\<close> (little-endian CRC-32, polynomial
  \<^verbatim>\<open>0xEDB88320\<close>, no inversion of seed or result), a library function the driver
  calls; bit by bit.
\<close>

definition crc32_bit :: "u32 \<Rightarrow> u32" where
  "crc32_bit crc = (if crc AND 1 \<noteq> 0 then drop_bit 1 crc XOR 0xEDB88320 else drop_bit 1 crc)"

definition crc32_byte :: "u8 \<Rightarrow> u32 \<Rightarrow> u32" where
  "crc32_byte b crc = (crc32_bit ^^ 8) (crc XOR ucast b)"

definition crc32 :: "u32 \<Rightarrow> u8 list \<Rightarrow> u32" where
  "crc32 seed p = fold crc32_byte p seed"

text \<open>
  The state of one invocation of \<^verbatim>\<open>antsdr_udp_work\<close>: the device, the datagrams
  that \<^verbatim>\<open>kernel_sendmsg\<close> accepted so far (oldest first), and the local counter
  \<^verbatim>\<open>packets_sent\<close>.
\<close>

record udp_work_state =
  dev :: antsdr_dma_dev
  wire :: "antsdr_packet list"
  packets_sent :: nat

text \<open>
  The header and payload built for one fragment: the \<^verbatim>\<open>memcpy\<close> out of the ring slot
  \<open>ring_data\<close> at \<open>fragment_offset\<close>, and the twelve header assignments.
\<close>

definition build_packet :: "antsdr_dma_dev \<Rightarrow> nat \<Rightarrow> nat \<Rightarrow> u32 \<Rightarrow> nat \<Rightarrow> nat \<Rightarrow> nat \<Rightarrow> nat \<Rightarrow> antsdr_packet" where
  "build_packet d ring_data payload_len current_frame_id fragments_needed fragment_idx
       fragment_offset current_fragment_size =
     (let packet_payload = take current_fragment_size (drop fragment_offset (ring_buffers d ! ring_data))
      in \<lparr>pkt_header =
            \<lparr>hdr_start_marker = ANTSDR_PACKET_START_MARKER,
             hdr_sequence_number = packet_sequence_number d,
             hdr_total_length = of_nat (ANTSDR_PACKET_HEADER_SIZE + current_fragment_size),
             hdr_payload_length = of_nat current_fragment_size,
             hdr_frame_id = current_frame_id,
             hdr_fragment_offset = of_nat fragment_offset,
             hdr_fragment_count = of_nat fragments_needed,
             hdr_fragment_index = of_nat fragment_idx,
             hdr_frame_payload_total = of_nat payload_len,
             hdr_missing_frame_count = missing_frame_count d,
             hdr_checksum = crc32 0 packet_payload,
             hdr_end_marker = ANTSDR_PACKET_END_MARKER\<rparr>,
          pkt_payload = packet_payload\<rparr>)"

text \<open>
  The fragment loop of \<^verbatim>\<open>antsdr_udp_work\<close>,
  \<^verbatim>\<open>for (fragment_idx = 0; fragment_idx < fragments_needed; fragment_idx++)\<close>.
  \<open>kernel_sendmsg pkt\<close> is whether the network accepts the datagram (\<^verbatim>\<open>ret > 0\<close>).
  The result is the new state and whether a failed send left the loop through
  \<^verbatim>\<open>goto loop_end\<close>. Inside the loop \<open>fragment_offset < payload_len\<close>, so the
  subtraction does not wrap.
\<close>

function udp_fragment_loop ::
  "(antsdr_packet \<Rightarrow> bool) \<Rightarrow> nat \<Rightarrow> nat \<Rightarrow> u32 \<Rightarrow> nat \<Rightarrow> nat \<Rightarrow> nat \<Rightarrow> udp_work_state
     \<Rightarrow> udp_work_state \<times> bool" where
  "udp_fragment_loop kernel_sendmsg ring_data payload_len current_frame_id fragments_needed
       fragment_idx fragment_offset s =
     (if fragment_idx < fragments_needed then
        let d = dev s;
            current_fragment_size = min (payload_len - fragment_offset) ANTSDR_MAX_PAYLOAD_SIZE;
            pkt = build_packet d ring_data payload_len current_frame_id fragments_needed
                    fragment_idx fragment_offset current_fragment_size;
            d1 = d\<lparr>packet_sequence_number := packet_sequence_number d + 1\<rparr>
        in
          if sock d1 \<and> dest_set d1 then
            if kernel_sendmsg pkt then
              udp_fragment_loop kernel_sendmsg ring_data payload_len current_frame_id fragments_needed
                (fragment_idx + 1) (fragment_offset + current_fragment_size)
                (s\<lparr>dev := d1\<lparr>stats := (stats d1)\<lparr>udp_packets_sent := udp_packets_sent (stats d1) + 1\<rparr>\<rparr>,
                   wire := wire s @ [pkt],
                   packets_sent := packets_sent s + 1\<rparr>)
            else (s\<lparr>dev := d1\<lparr>stats := (stats d1)\<lparr>errors := errors (stats d1) + 1\<rparr>\<rparr>\<rparr>, True)
          else
            udp_fragment_loop kernel_sendmsg ring_data payload_len current_frame_id fragments_needed
              (fragment_idx + 1) (fragment_offset + current_fragment_size) (s\<lparr>dev := d1\<rparr>)
      else (s, False))"
  by pat_completeness auto
termination
  by (relation "measure (\<lambda>(tx, rd, pl, fid, fragments_needed, fragment_idx, off, s). fragments_needed - fragment_idx)") auto

declare udp_fragment_loop.simps [simp del]

text \<open>
  The head of the body of the \<^verbatim>\<open>while\<close> loop, after a successful
  \<^verbatim>\<open>antsdr_ring_get\<close> that gave \<open>ring_size\<close>: the logical payload length, the
  early return of the ring buffer, the fragment count and the frame id. The result is
  \<open>(payload_len, fragments_needed, current_frame_id)\<close> and the new device state.
\<close>

definition udp_slot_begin :: "antsdr_dma_dev \<Rightarrow> nat \<Rightarrow> (nat \<times> nat \<times> u32) \<times> antsdr_dma_dev" where
  "udp_slot_begin d ring_size_out =
     (let payload_len = ring_size_out;
          d1 = antsdr_ring_return_buffer d;
          fragments_needed = (payload_len + ANTSDR_MAX_PAYLOAD_SIZE - 1) div ANTSDR_MAX_PAYLOAD_SIZE;
          current_frame_id = frame_id_counter d1;
          d2 = d1\<lparr>frame_id_counter := frame_id_counter d1 + 1\<rparr>
      in ((payload_len, fragments_needed, current_frame_id), d2))"

text \<open>The whole body for one slot: \<open>udp_slot_begin\<close>, then the fragment loop.\<close>

definition udp_work_slot :: "(antsdr_packet \<Rightarrow> bool) \<Rightarrow> nat \<Rightarrow> nat \<Rightarrow> udp_work_state \<Rightarrow> udp_work_state \<times> bool" where
  "udp_work_slot kernel_sendmsg ring_data ring_size_out s =
     (let ((payload_len, fragments_needed, current_frame_id), d2) = udp_slot_begin (dev s) ring_size_out
      in udp_fragment_loop kernel_sendmsg ring_data payload_len current_frame_id fragments_needed 0 0
           (s\<lparr>dev := d2\<rparr>))"

text \<open>
  The loop \<^verbatim>\<open>while (packets_sent < 200)\<close> of \<^verbatim>\<open>antsdr_udp_work\<close>. Every pass
  that does not leave the loop releases one slot, so the loop ends when the ring is
  empty at the latest.
\<close>

function udp_work_loop :: "(antsdr_packet \<Rightarrow> bool) \<Rightarrow> udp_work_state \<Rightarrow> udp_work_state" where
  "udp_work_loop kernel_sendmsg s =
     (if packets_sent s < 200 then
        case antsdr_ring_get (dev s) of
          Inl e \<Rightarrow> s
        | Inr (ring_data, ring_size_out) \<Rightarrow>
            let (s1, aborted) = udp_work_slot kernel_sendmsg ring_data ring_size_out s
            in if aborted then s1 else udp_work_loop kernel_sendmsg s1
      else s)"
  by pat_completeness auto
termination
proof (relation "measure (\<lambda>(tx, s). ring_count (dev s))", goal_cases)
  case 1
  show ?case by simp
next
  case (2 tx s x2 ring_data ring_size_out x s1 aborted)
  have keep: "ring_count (dev (fst (udp_fragment_loop tx rd pl fid fn i off t))) = ring_count (dev t)"
    for rd pl fid fn i off t
  proof (induction tx rd pl fid fn i off t rule: udp_fragment_loop.induct)
    case (1 tx rd pl fid fn i off t)
    then show ?case
      by (subst udp_fragment_loop.simps) (auto simp: Let_def)
  qed
  have pos: "ring_count (dev s) > 0"
    using 2(2) by (auto simp: antsdr_ring_get_def split: if_splits)
  have "s1 = fst (udp_work_slot tx ring_data ring_size_out s)"
    using 2 by (metis fst_conv)
  then have "ring_count (dev s1) = ring_count (antsdr_ring_return_buffer (dev s))"
    by (simp add: udp_work_slot_def udp_slot_begin_def Let_def keep)
  with pos show ?case
    by (simp add: antsdr_ring_return_buffer_def)
qed

declare udp_work_loop.simps [simp del]

text \<open>
  \<^verbatim>\<open>antsdr_udp_work\<close>: \<open>alloc_ok\<close> is whether the packet buffer could be allocated.
  The result is the device state and the datagrams the network accepted.
\<close>

definition antsdr_udp_work :: "(antsdr_packet \<Rightarrow> bool) \<Rightarrow> bool \<Rightarrow> antsdr_dma_dev \<Rightarrow> antsdr_dma_dev \<times> antsdr_packet list" where
  "antsdr_udp_work kernel_sendmsg alloc_ok d =
     (if \<not> alloc_ok then (d\<lparr>udp_work_pending := False\<rparr>, [])
      else
        let s = udp_work_loop kernel_sendmsg \<lparr>dev = d, wire = [], packets_sent = 0\<rparr>
        in ((if ring_count (dev s) > 0 then dev s else (dev s)\<lparr>udp_work_pending := False\<rparr>), wire s))"

subsection \<open>Statistics snapshot\<close>

text \<open>
  The \<^verbatim>\<open>ANTSDR_IOC_GET_STATS\<close> case of \<^verbatim>\<open>antsdr_dma_ioctl\<close>: the structure copied to
  the caller, or \<^verbatim>\<open>-EFAULT\<close> when \<^verbatim>\<open>copy_to_user\<close> fails.
\<close>

definition antsdr_ioc_get_stats :: "antsdr_dma_dev \<Rightarrow> bool \<Rightarrow> errno + antsdr_dma_stats" where
  "antsdr_ioc_get_stats d copy_ok = (if copy_ok then Inr (stats d) else Inl EFAULT)"

section \<open>Properties\<close>

subsection \<open>States and inputs used to state the properties\<close>

text \<open>
  The zero-filled device structure that \<^verbatim>\<open>antsdr_dma_probe\<close> allocates; the device
  after \<^verbatim>\<open>antsdr_ring_init\<close> on zero-filled slots; and that device with all 256 slots
  occupied (head and tail both at slot 0).
\<close>

definition zeroed_stats :: antsdr_dma_stats where
  "zeroed_stats = \<lparr>transfers_completed = 0, bytes_transferred = 0, udp_packets_sent = 0, errors = 0,
     valid_frames = 0, invalid_frames = 0, extracted_frames = 0\<rparr>"

definition zeroed_dev :: antsdr_dma_dev where
  "zeroed_dev = \<lparr>stats = zeroed_stats, ring_buffers = [], ring_size = 0, ring_head = 0, ring_tail = 0,
     ring_count = 0, ring_buffer_size = 0, sock = False, dest_set = False, udp_work_pending = False,
     raw_frame_fifo = [], frame_work_pending = False, packet_sequence_number = 0, frame_id_counter = 0,
     pulse_mode = 0, frame_detection_buffer = [], frame_buffer_size = 0, frame_buffer_used = 0,
     frames_accumulated = 0, total_frames_processed = 0, missing_frame_count = 0,
     last_frame_counter = 0, first_frame_received = False\<rparr>"

definition fresh_slots :: "u8 list list" where
  "fresh_slots = replicate RING_BUFFER_COUNT (replicate RING_BUFFER_SIZE 0)"

definition probed_dev :: antsdr_dma_dev where
  "probed_dev = snd (antsdr_ring_init zeroed_dev (Some fresh_slots))"

definition full_dev :: antsdr_dma_dev where
  "full_dev = probed_dev\<lparr>ring_count := RING_BUFFER_COUNT\<rparr>"

definition no_payload :: frame_work_locals where
  "no_payload = \<lparr>cur_payload = [], cur_payload_len = 0\<rparr>"

text \<open>
  The invariant of the ring positions: the head is \<open>ring_count\<close> slots after the tail,
  modulo the number of slots.
\<close>

definition ring_wf :: "antsdr_dma_dev \<Rightarrow> bool" where
  "ring_wf d \<longleftrightarrow>
     0 < ring_size d \<and> length (ring_buffers d) = ring_size d \<and>
     ring_tail d < ring_size d \<and> ring_count d \<le> ring_size d \<and>
     ring_head d = (ring_tail d + ring_count d) mod ring_size d"

text \<open>Producer and consumer operations on the ring, for sequences of them.\<close>

datatype ring_op = Put "u8 list" nat | Release

fun ring_apply :: "ring_op \<Rightarrow> antsdr_dma_dev \<Rightarrow> antsdr_dma_dev" where
  "ring_apply (Put data sz) d = snd (antsdr_ring_put d data sz)"
| "ring_apply Release d = antsdr_ring_return_buffer d"

text \<open>
  The markers of a transfer: \<open>first_header_at data h\<close> says that word \<open>h\<close> is the
  first start marker, \<open>last_footer_at data f\<close> that word \<open>f\<close> is the last end marker.
\<close>

definition is_header_word :: "u32 \<Rightarrow> bool" where
  "is_header_word w \<longleftrightarrow> w = FPGA_HEADER_MARKER_1 \<or> w = FPGA_HEADER_MARKER_2"

definition first_header_at :: "u8 list \<Rightarrow> nat \<Rightarrow> bool" where
  "first_header_at data h \<longleftrightarrow>
     h < length data div 4 \<and> is_header_word (word_at data h) \<and>
     (\<forall>i<h. \<not> is_header_word (word_at data i))"

definition last_footer_at :: "u8 list \<Rightarrow> nat \<Rightarrow> bool" where
  "last_footer_at data f \<longleftrightarrow>
     f < length data div 4 \<and> word_at data f = FPGA_FOOTER_MARKER \<and>
     (\<forall>i. f < i \<and> i < length data div 4 \<longrightarrow> word_at data i \<noteq> FPGA_FOOTER_MARKER)"

text \<open>
  A short-pulse transfer holding one well-formed frame (start marker, 50 payload words,
  counter 7, end marker), and one whose start marker is at word 1, so that the span to
  the end marker is 52 words.
\<close>

definition short_frame :: "u8 list" where
  "short_frame = [0xFF, 0xFF, 0xFF, 0xFE] @ replicate 200 0xAB @ [7, 0, 0, 0] @ [0xFF, 0xFF, 0xFF, 0xFF]"

definition shifted_frame :: "u8 list" where
  "shifted_frame = replicate 4 0xAB @ [0xFF, 0xFF, 0xFF, 0xFE] @ replicate 196 0xAB @ [7, 0, 0, 0] @ [0xFF, 0xFF, 0xFF, 0xFF]"

text \<open>A freed block of 212 bytes, every byte \<^verbatim>\<open>0x6B\<close>.\<close>

definition freed_block :: "u8 list" where
  "freed_block = replicate 212 0x6B"

text \<open>A run of frame counters through the gap detection.\<close>

definition feed_counters :: "u32 list \<Rightarrow> antsdr_dma_dev \<Rightarrow> antsdr_dma_dev" where
  "feed_counters cs d = fold (\<lambda>c d. gap_detection d c) cs d"

text \<open>
  Devices for the packetizer: \<open>streaming_dev\<close> has its socket and destination set;
  \<open>queued_dev\<close> is that device after a put of a payload of 200 bytes \<^verbatim>\<open>0xAB\<close>, the
  payload of \<open>short_frame\<close>; \<open>busy_dev\<close> has all 256 slots occupied.
\<close>

definition streaming_dev :: antsdr_dma_dev where
  "streaming_dev = probed_dev\<lparr>sock := True, dest_set := True\<rparr>"

definition queued_dev :: antsdr_dma_dev where
  "queued_dev = snd (antsdr_ring_put streaming_dev (replicate 200 0xAB) 200)"

definition busy_dev :: antsdr_dma_dev where
  "busy_dev = full_dev\<lparr>sock := True, dest_set := True\<rparr>"





text \<open>
  The \<open>k\<close>-th fragment of a payload of \<open>pl\<close> bytes at the start of \<open>slot\<close>, in closed
  form: \<open>sq\<close> is the sequence number of the first fragment, \<open>fid\<close> the frame id and
  \<open>fn\<close> the fragment count.
\<close>

definition fragment_packet :: "u8 list \<Rightarrow> u32 \<Rightarrow> u32 \<Rightarrow> nat \<Rightarrow> u32 \<Rightarrow> nat \<Rightarrow> nat \<Rightarrow> antsdr_packet" where
  "fragment_packet slot sq missing pl fid fn k =
     (let off = k * ANTSDR_MAX_PAYLOAD_SIZE;
          len = min (pl - off) ANTSDR_MAX_PAYLOAD_SIZE;
          bytes = take len (drop off slot)
      in \<lparr>pkt_header =
            \<lparr>hdr_start_marker = ANTSDR_PACKET_START_MARKER,
             hdr_sequence_number = sq + of_nat k,
             hdr_total_length = of_nat (ANTSDR_PACKET_HEADER_SIZE + len),
             hdr_payload_length = of_nat len,
             hdr_frame_id = fid,
             hdr_fragment_offset = of_nat off,
             hdr_fragment_count = of_nat fn,
             hdr_fragment_index = of_nat k,
             hdr_frame_payload_total = of_nat pl,
             hdr_missing_frame_count = missing,
             hdr_checksum = crc32 0 bytes,
             hdr_end_marker = ANTSDR_PACKET_END_MARKER\<rparr>,
          pkt_payload = bytes\<rparr>)"

text \<open>
  The two fragments of the \<open>j\<close>-th slot after the tail of the ring of \<open>d\<close>, for a
  payload length of \<^verbatim>\<open>RING_BUFFER_SIZE\<close>, in closed form.
\<close>

definition frame_packets :: "antsdr_dma_dev \<Rightarrow> nat \<Rightarrow> antsdr_packet list" where
  "frame_packets d j =
     map (fragment_packet (ring_buffers d ! ((ring_tail d + j) mod ring_size d))
            (packet_sequence_number d + of_nat (2 * j)) (missing_frame_count d)
            RING_BUFFER_SIZE (frame_id_counter d + of_nat j) 2) [0..<2]"

subsection \<open>Auxiliary facts\<close>

lemma ring_wf_init:
  "length bufs = RING_BUFFER_COUNT \<Longrightarrow> ring_wf (snd (antsdr_ring_init d (Some bufs)))"
  by (simp add: ring_wf_def antsdr_ring_init_def RING_BUFFER_COUNT_def)

lemma ring_wf_put: "ring_wf d \<Longrightarrow> ring_wf (snd (antsdr_ring_put d data n))"
  unfolding ring_wf_def antsdr_ring_put_def Let_def
  by (simp add: mod_Suc_eq)

lemma mod_step: "0 < c \<Longrightarrow> ((t + 1) mod n + (c - 1)) mod n = (t + c) mod (n::nat)"
proof -
  assume "0 < c"
  then have "t + 1 + (c - 1) = t + c" by simp
  then show ?thesis by (metis mod_add_left_eq)
qed

lemma ring_wf_return: "ring_wf d \<Longrightarrow> ring_wf (antsdr_ring_return_buffer d)"
  unfolding ring_wf_def antsdr_ring_return_buffer_def
  using mod_step [of "ring_count d" "ring_tail d" "ring_size d"]
  by auto

lemma ring_wf_apply: "ring_wf d \<Longrightarrow> ring_wf (ring_apply op d)"
  by (cases op) (simp_all add: ring_wf_put ring_wf_return)

lemma ring_buffer_size_apply: "ring_buffer_size (ring_apply op d) = ring_buffer_size d"
  by (cases op) (simp_all add: antsdr_ring_put_def antsdr_ring_return_buffer_def Let_def)

lemma ring_buffer_size_fold: "ring_buffer_size (fold ring_apply ops d) = ring_buffer_size d"
  by (induction ops arbitrary: d) (simp_all add: ring_buffer_size_apply)

lemma ring_wf_fold: "ring_wf d \<Longrightarrow> ring_wf (fold ring_apply ops d)"
  by (induction ops arbitrary: d) (simp_all add: ring_wf_apply)

lemma ring_wf_full_head: "ring_wf d \<Longrightarrow> ring_count d = ring_size d \<Longrightarrow> ring_head d = ring_tail d"
  by (simp add: ring_wf_def)

lemma probed_dev_simps:
  "ring_size probed_dev = 256" "ring_count probed_dev = 0" "ring_head probed_dev = 0" "ring_tail probed_dev = 0"
  "ring_buffer_size probed_dev = 1600" "ring_buffers probed_dev = fresh_slots"
  "stats probed_dev = zeroed_stats" "pulse_mode probed_dev = 0" "first_frame_received probed_dev = False"
  "missing_frame_count probed_dev = 0" "last_frame_counter probed_dev = 0"
  "total_frames_processed probed_dev = 0" "sock probed_dev = False" "dest_set probed_dev = False"
  "frame_id_counter probed_dev = 0" "packet_sequence_number probed_dev = 0"
  by (simp_all add: probed_dev_def antsdr_ring_init_def zeroed_dev_def RING_BUFFER_COUNT_def RING_BUFFER_SIZE_def)

lemma fresh_slots_simps: "length fresh_slots = 256" "i < 256 \<Longrightarrow> fresh_slots ! i = replicate 1600 0"
  by (simp_all add: fresh_slots_def RING_BUFFER_COUNT_def RING_BUFFER_SIZE_def)

lemma scan_fold_Suc:
  "fold (scan_step data) [0..<Suc n] a = scan_step data n (fold (scan_step data) [0..<n] a)"
  by simp

lemma fst_scan_step:
  "fst (scan_step data i hf) = (if is_header_word (word_at data i) \<and> fst hf = -1 then int i else fst hf)"
  by (simp add: scan_step_def Let_def is_header_word_def)

lemma snd_scan_step:
  "snd (scan_step data i hf) = (if word_at data i = FPGA_FOOTER_MARKER then int i else snd hf)"
  by (simp add: scan_step_def Let_def)

lemma scan_header_none:
  "(\<forall>i<n. \<not> is_header_word (word_at data i)) \<Longrightarrow> fst (fold (scan_step data) [0..<n] (-1, -1)) = -1"
proof (induction n)
  case 0
  then show ?case by simp
next
  case (Suc n)
  then show ?case
    unfolding scan_fold_Suc by (simp add: fst_scan_step)
qed

lemma scan_header_first:
  "is_header_word (word_at data h) \<Longrightarrow> (\<forall>i<h. \<not> is_header_word (word_at data i)) \<Longrightarrow> h < n \<Longrightarrow>
   fst (fold (scan_step data) [0..<n] (-1, -1)) = int h"
proof (induction n)
  case 0
  then show ?case by simp
next
  case (Suc n)
  show ?case
  proof (cases "h = n")
    case True
    with Suc.prems have "fst (fold (scan_step data) [0..<n] (-1, -1)) = -1"
      by (simp add: scan_header_none)
    with True Suc.prems show ?thesis
      unfolding scan_fold_Suc by (simp add: fst_scan_step)
  next
    case False
    with Suc have "fst (fold (scan_step data) [0..<n] (-1, -1)) = int h" by simp
    then show ?thesis
      unfolding scan_fold_Suc by (simp add: fst_scan_step)
  qed
qed


lemma scan_footer_last:
  "word_at data f = FPGA_FOOTER_MARKER \<Longrightarrow> (\<forall>i. f < i \<and> i < n \<longrightarrow> word_at data i \<noteq> FPGA_FOOTER_MARKER) \<Longrightarrow>
   f < n \<Longrightarrow> snd (fold (scan_step data) [0..<n] (-1, -1)) = int f"
proof (induction n)
  case 0
  then show ?case by simp
next
  case (Suc n)
  show ?case
  proof (cases "f = n")
    case True
    with Suc.prems show ?thesis
      unfolding scan_fold_Suc by (simp add: snd_scan_step)
  next
    case False
    with Suc have "snd (fold (scan_step data) [0..<n] (-1, -1)) = int f" by simp
    moreover from False Suc.prems have "word_at data n \<noteq> FPGA_FOOTER_MARKER" by simp
    ultimately show ?thesis
      unfolding scan_fold_Suc by (simp add: snd_scan_step)
  qed
qed

lemma find_markers_both:
  "first_header_at data h \<Longrightarrow> last_footer_at data f \<Longrightarrow> find_markers data = (int h, int f)"
  unfolding find_markers_def first_header_at_def last_footer_at_def
  by (simp add: prod_eq_iff scan_header_first scan_footer_last)

lemma expected_frame_words_cases:
  "expected_frame_words d = 53 \<or> expected_frame_words d = 403"
  by (simp add: expected_frame_words_def FPGA_LONG_PULSE_WORDS_def FPGA_SHORT_PULSE_WORDS_def)

lemma parse_valid:
  assumes "first_header_at data h" and "last_footer_at data f"
    and "int f - int h + 1 = int (expected_frame_words d)"
  shows "antsdr_parse_fpga_frame d data =
           (gap_detection (d\<lparr>total_frames_processed := total_frames_processed d + 1\<rparr>) (word_at data (f - 1)),
            Frame_Extracted (4 * (h + 1)) ((expected_frame_words d - 3) * 4))"
proof -
  have fm: "find_markers data = (int h, int f)"
    using assms(1,2) by (rule find_markers_both)
  have e: "expected_frame_words (d\<lparr>total_frames_processed := total_frames_processed d + 1\<rparr>) = expected_frame_words d"
    by (simp add: expected_frame_words_def)
  from expected_frame_words_cases [of d] assms(3)
  have big: "int h + 1 < int f" "3 \<le> int f - int h + 1" by auto
  have n1: "nat (int f - 1) = f - 1" by simp
  have n2: "nat (int h + 1) = h + 1" by simp
  have n3: "nat ((int f - int h + 1 - 3) * 4) = (expected_frame_words d - 3) * 4"
    using assms(3) expected_frame_words_cases [of d] by auto
  show ?thesis
    unfolding antsdr_parse_fpga_frame_def fm Let_def e
    using assms(3) big by (simp add: n1 n2 n3)
qed

lemma parse_mismatch:
  assumes "first_header_at data h" and "last_footer_at data f"
    and "int f - int h + 1 \<noteq> int (expected_frame_words d)"
  shows "antsdr_parse_fpga_frame d data =
           (d\<lparr>total_frames_processed := total_frames_processed d + 1\<rparr>, Length_Mismatch)"
proof -
  have fm: "find_markers data = (int h, int f)"
    using assms(1,2) by (rule find_markers_both)
  have e: "expected_frame_words (d\<lparr>total_frames_processed := total_frames_processed d + 1\<rparr>) = expected_frame_words d"
    by (simp add: expected_frame_words_def)
  show ?thesis
    unfolding antsdr_parse_fpga_frame_def fm Let_def e
    using assms(3) by simp
qed

lemma short_frame_markers:
  "first_header_at short_frame 0" "last_footer_at short_frame 52" "length short_frame = 212"
  "word_at short_frame 51 = 7"
  by (simp_all add: first_header_at_def last_footer_at_def short_frame_def is_header_word_def word_at_def
      le32_def FPGA_HEADER_MARKER_1_def FPGA_FOOTER_MARKER_def nth_append)

lemma shifted_frame_markers:
  "first_header_at shifted_frame 1" "last_footer_at shifted_frame 52" "length shifted_frame = 212"
  by (simp_all add: first_header_at_def last_footer_at_def shifted_frame_def is_header_word_def word_at_def
      le32_def FPGA_HEADER_MARKER_1_def FPGA_HEADER_MARKER_2_def FPGA_FOOTER_MARKER_def nth_append)

lemma full_dev_simps:
  "ring_size full_dev = 256" "ring_count full_dev = 256" "ring_head full_dev = 0" "ring_tail full_dev = 0"
  "ring_buffer_size full_dev = 1600" "ring_buffers full_dev = fresh_slots"
  "stats full_dev = zeroed_stats" "pulse_mode full_dev = 0"
  by (simp_all add: full_dev_def probed_dev_simps RING_BUFFER_COUNT_def)

lemma frame_work_one_valid:
  assumes "first_header_at data h" and "last_footer_at data f"
    and "int f - int h + 1 = int (expected_frame_words d)"
  shows "frame_work_one d l data freed =
     (let d1 = gap_detection (d\<lparr>total_frames_processed := total_frames_processed d + 1\<rparr>) (word_at data (f - 1));
          l1 = \<lparr>cur_payload = drop (4 * (h + 1)) freed, cur_payload_len = (expected_frame_words d - 3) * 4\<rparr>;
          (ret, d2) = antsdr_ring_put d1 (cur_payload l1) (cur_payload_len l1)
      in if ret = Inr ()
         then (d2\<lparr>udp_work_pending := True, stats := count_valid_frame (stats d2)\<rparr>, l1)
         else (d2\<lparr>stats := (stats d2)\<lparr>errors := errors (stats d2) + 1\<rparr>\<rparr>, l1))"
  unfolding frame_work_one_def parse_valid [OF assms]
  by (simp add: Let_def split: prod.splits)

lemma gap_detection_ring:
  "ring_count (gap_detection d c) = ring_count d" "ring_size (gap_detection d c) = ring_size d"
  "ring_head (gap_detection d c) = ring_head d" "ring_tail (gap_detection d c) = ring_tail d"
  "ring_buffers (gap_detection d c) = ring_buffers d" "ring_buffer_size (gap_detection d c) = ring_buffer_size d"
  "stats (gap_detection d c) = stats d"
  "frame_detection_buffer (gap_detection d c) = frame_detection_buffer d"
  "frame_buffer_used (gap_detection d c) = frame_buffer_used d"
  "frames_accumulated (gap_detection d c) = frames_accumulated d"
  by (simp_all add: gap_detection_def Let_def)

lemma gap_no_wrap:
  fixes l c :: u32
  assumes "unat l + 1 < unat c"
  shows "l + 1 < c"
proof -
  from assms have "l < c" by (simp add: word_less_nat_alt)
  then have le: "l + 1 \<le> c" by (rule inc_le)
  have "unat (l + 1) \<le> unat l + 1"
    by (simp add: unat_word_ariths) 
  with assms have "l + 1 \<noteq> c" by auto
  with le show ?thesis by simp
qed

lemma gap_out_of_order:
  fixes l c :: u32
  assumes "l \<noteq> 0xFFFFFFFF" and "c \<le> l"
  shows "\<not> l + 1 < c"
proof
  assume "l + 1 < c"
  with assms(2) have "l + 1 \<le> l" by simp
  then have "l = - 1" by (rule inc_less_eq_triv_imp)
  with assms(1) show False by simp
qed

lemma max_plus_one: "(0xFFFFFFFF::u32) + 1 = 0"
  by simp

lemma udp_fragment_loop_done:
  "\<not> i < fn \<Longrightarrow> udp_fragment_loop tx rd pl fid fn i off s = (s, False)"
  by (subst udp_fragment_loop.simps) simp

lemma udp_fragment_loop_sent:
  "i < fn \<Longrightarrow> sock (dev s) \<Longrightarrow> dest_set (dev s) \<Longrightarrow>
   tx (build_packet (dev s) rd pl fid fn i off (min (pl - off) ANTSDR_MAX_PAYLOAD_SIZE)) \<Longrightarrow>
   udp_fragment_loop tx rd pl fid fn i off s =
     udp_fragment_loop tx rd pl fid fn (i + 1) (off + min (pl - off) ANTSDR_MAX_PAYLOAD_SIZE)
       (s\<lparr>dev := (dev s)\<lparr>packet_sequence_number := packet_sequence_number (dev s) + 1,
                           stats := (stats (dev s))\<lparr>udp_packets_sent := udp_packets_sent (stats (dev s)) + 1\<rparr>\<rparr>,
          wire := wire s @ [build_packet (dev s) rd pl fid fn i off (min (pl - off) ANTSDR_MAX_PAYLOAD_SIZE)],
          packets_sent := packets_sent s + 1\<rparr>)"
  by (subst udp_fragment_loop.simps) (simp add: Let_def)

lemma udp_fragment_loop_failed:
  "i < fn \<Longrightarrow> sock (dev s) \<Longrightarrow> dest_set (dev s) \<Longrightarrow>
   \<not> tx (build_packet (dev s) rd pl fid fn i off (min (pl - off) ANTSDR_MAX_PAYLOAD_SIZE)) \<Longrightarrow>
   udp_fragment_loop tx rd pl fid fn i off s =
     (s\<lparr>dev := (dev s)\<lparr>packet_sequence_number := packet_sequence_number (dev s) + 1,
                          stats := (stats (dev s))\<lparr>errors := errors (stats (dev s)) + 1\<rparr>\<rparr>\<rparr>, True)"
  by (subst udp_fragment_loop.simps) (simp add: Let_def)

lemma udp_fragment_loop_unsent:
  "i < fn \<Longrightarrow> \<not> (sock (dev s) \<and> dest_set (dev s)) \<Longrightarrow>
   udp_fragment_loop tx rd pl fid fn i off s =
     udp_fragment_loop tx rd pl fid fn (i + 1) (off + min (pl - off) ANTSDR_MAX_PAYLOAD_SIZE)
       (s\<lparr>dev := (dev s)\<lparr>packet_sequence_number := packet_sequence_number (dev s) + 1\<rparr>\<rparr>)"
  by (subst udp_fragment_loop.simps) (auto simp: Let_def)

lemma ring_init_size: "ring_buffer_size (snd (antsdr_ring_init d0 mem)) = RING_BUFFER_SIZE"
  by (simp add: antsdr_ring_init_def Let_def split: option.splits)

lemma udp_work_slot_unfold:
  "udp_work_slot tx rd rs s =
     udp_fragment_loop tx rd rs (frame_id_counter (dev s))
       ((rs + ANTSDR_MAX_PAYLOAD_SIZE - 1) div ANTSDR_MAX_PAYLOAD_SIZE) 0 0
       (s\<lparr>dev := (antsdr_ring_return_buffer (dev s))\<lparr>frame_id_counter := frame_id_counter (dev s) + 1\<rparr>\<rparr>)"
  by (simp add: udp_work_slot_def udp_slot_begin_def Let_def antsdr_ring_return_buffer_def)

lemma build_packet_fragment:
  "packet_sequence_number d = sq + of_nat k \<Longrightarrow>
   build_packet d rd pl fid fn k (k * ANTSDR_MAX_PAYLOAD_SIZE)
     (min (pl - k * ANTSDR_MAX_PAYLOAD_SIZE) ANTSDR_MAX_PAYLOAD_SIZE) =
   fragment_packet (ring_buffers d ! rd) sq (missing_frame_count d) pl fid fn k"
  by (simp add: build_packet_def fragment_packet_def Let_def)

lemma full_fragment:
  "i + 1 < (pl + ANTSDR_MAX_PAYLOAD_SIZE - 1) div ANTSDR_MAX_PAYLOAD_SIZE \<Longrightarrow>
   min (pl - i * ANTSDR_MAX_PAYLOAD_SIZE) ANTSDR_MAX_PAYLOAD_SIZE = ANTSDR_MAX_PAYLOAD_SIZE"
  unfolding ANTSDR_MAX_PAYLOAD_SIZE_def by arith

lemma udp_fragment_loop_all_sent:
  assumes all: "\<And>p. tx p"
  shows "sock (dev s) \<Longrightarrow> dest_set (dev s) \<Longrightarrow> (i < fn \<longrightarrow> off = i * ANTSDR_MAX_PAYLOAD_SIZE) \<Longrightarrow>
    fn = (pl + ANTSDR_MAX_PAYLOAD_SIZE - 1) div ANTSDR_MAX_PAYLOAD_SIZE \<Longrightarrow>
    packet_sequence_number (dev s) = sq + of_nat i \<Longrightarrow>
    wire (fst (udp_fragment_loop tx rd pl fid fn i off s)) =
      wire s @ map (fragment_packet (ring_buffers (dev s) ! rd) sq (missing_frame_count (dev s)) pl fid fn) [i..<fn] \<and>
    \<not> snd (udp_fragment_loop tx rd pl fid fn i off s) \<and>
    frame_id_counter (dev (fst (udp_fragment_loop tx rd pl fid fn i off s))) = frame_id_counter (dev s)"
proof (induction "fn - i" arbitrary: i off s)
  case 0
  then show ?case by (simp add: udp_fragment_loop_done)
next
  case (Suc n)
  then have lt: "i < fn" and n: "n = fn - (i + 1)" by auto
  from lt Suc.prems have off: "off = i * ANTSDR_MAX_PAYLOAD_SIZE" by simp
  let ?c = "min (pl - off) ANTSDR_MAX_PAYLOAD_SIZE"
  let ?pkt = "build_packet (dev s) rd pl fid fn i off ?c"
  let ?s = "s\<lparr>dev := (dev s)\<lparr>packet_sequence_number := packet_sequence_number (dev s) + 1,
                           stats := (stats (dev s))\<lparr>udp_packets_sent := udp_packets_sent (stats (dev s)) + 1\<rparr>\<rparr>,
          wire := wire s @ [?pkt], packets_sent := packets_sent s + 1\<rparr>"
  have step: "udp_fragment_loop tx rd pl fid fn i off s =
      udp_fragment_loop tx rd pl fid fn (i + 1) (off + ?c) ?s"
    using lt Suc.prems(1,2) all by (rule udp_fragment_loop_sent)
  have pkt: "?pkt = fragment_packet (ring_buffers (dev s) ! rd) sq (missing_frame_count (dev s)) pl fid fn i"
    unfolding off using Suc.prems(5) by (rule build_packet_fragment)
  have next_off: "i + 1 < fn \<longrightarrow> off + ?c = (i + 1) * ANTSDR_MAX_PAYLOAD_SIZE"
    using full_fragment [of i pl] Suc.prems(4) off by simp
  have seq: "packet_sequence_number (dev ?s) = sq + of_nat (i + 1)"
    using Suc.prems(5) by simp
  have ih: "wire (fst (udp_fragment_loop tx rd pl fid fn (i + 1) (off + ?c) ?s)) =
      wire ?s @ map (fragment_packet (ring_buffers (dev ?s) ! rd) sq (missing_frame_count (dev ?s)) pl fid fn) [i + 1..<fn] \<and>
    \<not> snd (udp_fragment_loop tx rd pl fid fn (i + 1) (off + ?c) ?s) \<and>
    frame_id_counter (dev (fst (udp_fragment_loop tx rd pl fid fn (i + 1) (off + ?c) ?s))) = frame_id_counter (dev ?s)"
    using Suc.prems(1,2,4) next_off seq by (intro Suc.hyps(1) [OF n]) simp_all
  have upt: "[i..<fn] = i # [i + 1..<fn]"
    using lt by (simp add: upt_conv_Cons)
  show ?case
    unfolding step upt using ih pkt by simp
qed

lemma concat_fragments:
  "concat (map (\<lambda>k. take (min (pl - k * m) m) (drop (k * m) xs)) [0..<n]) = take (min pl (n * m)) xs"
proof (induction n)
  case 0
  then show ?case by simp
next
  case (Suc n)
  let ?f = "\<lambda>k. take (min (pl - k * m) m) (drop (k * m) xs)"
  have split: "concat (map ?f [0..<Suc n]) = take (min pl (n * m)) xs @ ?f n"
    using Suc by simp
  show ?case
  proof (cases "n * m \<le> pl")
    case True
    then have a: "min pl (n * m) = n * m" by simp
    have b: "min pl (Suc n * m) = n * m + min (pl - n * m) m"
      using True by auto
    have "take (min pl (Suc n * m)) xs = take (n * m + min (pl - n * m) m) xs"
      by (simp only: b)
    also have "\<dots> = take (n * m) xs @ ?f n"
      by (rule take_add)
    finally show ?thesis
      unfolding split a by simp
  next
    case False
    then have c: "min pl (n * m) = pl" "min pl (Suc n * m) = pl" "pl - n * m = 0" by auto
    show ?thesis
      unfolding split c by simp
  qed
qed

lemma return_buffer_fields:
  "sock (antsdr_ring_return_buffer d) = sock d"
  "dest_set (antsdr_ring_return_buffer d) = dest_set d"
  "ring_buffers (antsdr_ring_return_buffer d) = ring_buffers d"
  "packet_sequence_number (antsdr_ring_return_buffer d) = packet_sequence_number d"
  "missing_frame_count (antsdr_ring_return_buffer d) = missing_frame_count d"
  "frame_id_counter (antsdr_ring_return_buffer d) = frame_id_counter d"
  by (simp_all add: antsdr_ring_return_buffer_def)

lemma ceil_bounds:
  "pl \<le> ((pl + ANTSDR_MAX_PAYLOAD_SIZE - 1) div ANTSDR_MAX_PAYLOAD_SIZE) * ANTSDR_MAX_PAYLOAD_SIZE"
  "((pl + ANTSDR_MAX_PAYLOAD_SIZE - 1) div ANTSDR_MAX_PAYLOAD_SIZE) * ANTSDR_MAX_PAYLOAD_SIZE < pl + ANTSDR_MAX_PAYLOAD_SIZE"
  unfolding ANTSDR_MAX_PAYLOAD_SIZE_def by arith+

lemma udp_work_slot_all_sent:
  assumes "\<And>p. tx p" and "sock (dev s)" and "dest_set (dev s)"
  shows "wire (fst (udp_work_slot tx rd pl s)) =
      wire s @ map (fragment_packet (ring_buffers (dev s) ! rd) (packet_sequence_number (dev s))
                     (missing_frame_count (dev s)) pl (frame_id_counter (dev s))
                     ((pl + ANTSDR_MAX_PAYLOAD_SIZE - 1) div ANTSDR_MAX_PAYLOAD_SIZE))
                 [0..<(pl + ANTSDR_MAX_PAYLOAD_SIZE - 1) div ANTSDR_MAX_PAYLOAD_SIZE] \<and>
    \<not> snd (udp_work_slot tx rd pl s) \<and>
    frame_id_counter (dev (fst (udp_work_slot tx rd pl s))) = frame_id_counter (dev s) + 1"
  unfolding udp_work_slot_unfold
  using udp_fragment_loop_all_sent [where tx = tx and i = 0 and off = 0 and pl = pl and rd = rd
      and s = "s\<lparr>dev := (antsdr_ring_return_buffer (dev s))\<lparr>frame_id_counter := frame_id_counter (dev s) + 1\<rparr>\<rparr>"
      and fn = "(pl + ANTSDR_MAX_PAYLOAD_SIZE - 1) div ANTSDR_MAX_PAYLOAD_SIZE"
      and sq = "packet_sequence_number (dev s)" and fid = "frame_id_counter (dev s)"] assms
  by (simp add: return_buffer_fields)

lemma streaming_dev_simps:
  "ring_size streaming_dev = 256" "ring_count streaming_dev = 0" "ring_head streaming_dev = 0"
  "ring_tail streaming_dev = 0" "ring_buffer_size streaming_dev = 1600" "ring_buffers streaming_dev = fresh_slots"
  "pulse_mode streaming_dev = 0" "sock streaming_dev" "dest_set streaming_dev"
  by (simp_all add: streaming_dev_def probed_dev_simps)

lemma queued_dev_simps:
  "sock queued_dev" "dest_set queued_dev" "ring_count queued_dev = 1" "ring_tail queued_dev = 0"
  "ring_buffer_size queued_dev = 1600" "ring_size queued_dev = 256"
  "ring_buffers queued_dev ! 0 = replicate 200 0xAB @ replicate 1400 0"
  by (simp_all add: queued_dev_def antsdr_ring_put_def Let_def streaming_dev_simps memcpy_def
      fresh_slots_simps)

lemma udp_fragment_loop_payload:
  assumes "\<And>p. tx p" and "sock (dev s)" and "dest_set (dev s)" and "wire s = []"
  shows "concat (map pkt_payload (wire (fst (udp_fragment_loop tx rd pl fid
            ((pl + ANTSDR_MAX_PAYLOAD_SIZE - 1) div ANTSDR_MAX_PAYLOAD_SIZE) 0 0 s)))) =
         take pl (ring_buffers (dev s) ! rd)"
proof -
  let ?n = "(pl + ANTSDR_MAX_PAYLOAD_SIZE - 1) div ANTSDR_MAX_PAYLOAD_SIZE"
  let ?slot = "ring_buffers (dev s) ! rd"
  have "wire (fst (udp_fragment_loop tx rd pl fid ?n 0 0 s)) =
      map (fragment_packet ?slot (packet_sequence_number (dev s)) (missing_frame_count (dev s)) pl fid ?n) [0..<?n]"
    using udp_fragment_loop_all_sent [where tx = tx and i = 0 and off = 0 and pl = pl and rd = rd
      and s = s and fn = ?n and sq = "packet_sequence_number (dev s)" and fid = fid] assms
    by simp
  then have "map pkt_payload (wire (fst (udp_fragment_loop tx rd pl fid ?n 0 0 s))) =
      map (\<lambda>k. take (min (pl - k * ANTSDR_MAX_PAYLOAD_SIZE) ANTSDR_MAX_PAYLOAD_SIZE)
                 (drop (k * ANTSDR_MAX_PAYLOAD_SIZE) ?slot)) [0..<?n]"
    by (simp add: fragment_packet_def Let_def)
  then have "concat (map pkt_payload (wire (fst (udp_fragment_loop tx rd pl fid ?n 0 0 s)))) =
      take (min pl (?n * ANTSDR_MAX_PAYLOAD_SIZE)) ?slot"
    by (simp only: concat_fragments)
  then show ?thesis
    using ceil_bounds(1) [of pl] by (simp add: min_absorb1)
qed

lemma busy_dev_simps:
  "ring_size busy_dev = 256" "ring_count busy_dev = 256" "ring_head busy_dev = 0" "ring_tail busy_dev = 0"
  "ring_buffer_size busy_dev = 1600" "ring_buffers busy_dev = fresh_slots"
  "sock busy_dev" "dest_set busy_dev" "frame_id_counter busy_dev = 0"
  by (simp_all add: busy_dev_def full_dev_simps full_dev_def probed_dev_simps RING_BUFFER_COUNT_def)








lemma udp_fragment_loop_keeps:
  assumes "\<And>d v. f (d\<lparr>packet_sequence_number := v\<rparr>) = f d" and "\<And>d v. f (d\<lparr>stats := v\<rparr>) = f d"
  shows "f (dev (fst (udp_fragment_loop tx rd pl fid fn i off s))) = f (dev s)"
proof (induction tx rd pl fid fn i off s rule: udp_fragment_loop.induct)
  case (1 tx rd pl fid fn i off s)
  then show ?case
    by (subst udp_fragment_loop.simps) (auto simp: Let_def assms)
qed

lemma udp_fragment_loop_all_sent_counts:
  "sock (dev s) \<Longrightarrow> dest_set (dev s) \<Longrightarrow>
   packet_sequence_number (dev (fst (udp_fragment_loop (\<lambda>p. True) rd pl fid fn i off s))) =
     packet_sequence_number (dev s) + of_nat (fn - i) \<and>
   packets_sent (fst (udp_fragment_loop (\<lambda>p. True) rd pl fid fn i off s)) = packets_sent s + (fn - i)"
proof (induction "fn - i" arbitrary: i off s)
  case 0
  then show ?case by (simp add: udp_fragment_loop_done)
next
  case (Suc n)
  then have lt: "i < fn" and n: "n = fn - (i + 1)" by auto
  let ?c = "min (pl - off) ANTSDR_MAX_PAYLOAD_SIZE"
  let ?pkt = "build_packet (dev s) rd pl fid fn i off ?c"
  let ?s = "s\<lparr>dev := (dev s)\<lparr>packet_sequence_number := packet_sequence_number (dev s) + 1,
                           stats := (stats (dev s))\<lparr>udp_packets_sent := udp_packets_sent (stats (dev s)) + 1\<rparr>\<rparr>,
          wire := wire s @ [?pkt], packets_sent := packets_sent s + 1\<rparr>"
  have step: "udp_fragment_loop (\<lambda>p. True) rd pl fid fn i off s =
      udp_fragment_loop (\<lambda>p. True) rd pl fid fn (i + 1) (off + ?c) ?s"
    using lt Suc.prems(1,2) by (intro udp_fragment_loop_sent) simp_all
  have ih: "packet_sequence_number (dev (fst (udp_fragment_loop (\<lambda>p. True) rd pl fid fn (i + 1) (off + ?c) ?s))) =
     packet_sequence_number (dev ?s) + of_nat (fn - (i + 1)) \<and>
   packets_sent (fst (udp_fragment_loop (\<lambda>p. True) rd pl fid fn (i + 1) (off + ?c) ?s)) = packets_sent ?s + (fn - (i + 1))"
    using Suc.prems by (intro Suc.hyps(1) [OF n]) simp_all
  have k: "fn - i = Suc (fn - (i + 1))" using lt by simp
  show ?case
    unfolding step using ih by (simp add: k del: One_nat_def)
qed

lemma ceil_slot:
  "(RING_BUFFER_SIZE + ANTSDR_MAX_PAYLOAD_SIZE - 1) div ANTSDR_MAX_PAYLOAD_SIZE = 2"
  "(RING_BUFFER_SIZE + ANTSDR_MAX_PAYLOAD_SIZE - Suc 0) div ANTSDR_MAX_PAYLOAD_SIZE = 2"
  by (simp_all add: RING_BUFFER_SIZE_def ANTSDR_MAX_PAYLOAD_SIZE_def)

lemma udp_work_slot_state:
  assumes "sock (dev s)" and "dest_set (dev s)" and "0 < ring_count (dev s)"
    and "r = fst (udp_work_slot (\<lambda>p. True) rd RING_BUFFER_SIZE s)"
  shows "sock (dev r)" "dest_set (dev r)"
    "ring_buffer_size (dev r) = ring_buffer_size (dev s)"
    "ring_size (dev r) = ring_size (dev s)"
    "ring_buffers (dev r) = ring_buffers (dev s)"
    "missing_frame_count (dev r) = missing_frame_count (dev s)"
    "ring_tail (dev r) = (ring_tail (dev s) + 1) mod ring_size (dev s)"
    "ring_count (dev r) = ring_count (dev s) - 1"
    "frame_id_counter (dev r) = frame_id_counter (dev s) + 1"
    "packet_sequence_number (dev r) = packet_sequence_number (dev s) + 2"
    "packets_sent r = packets_sent s + 2"
proof -
  let ?s = "s\<lparr>dev := (antsdr_ring_return_buffer (dev s))\<lparr>frame_id_counter := frame_id_counter (dev s) + 1\<rparr>\<rparr>"
  have r: "r = fst (udp_fragment_loop (\<lambda>p. True) rd RING_BUFFER_SIZE (frame_id_counter (dev s)) 2 0 0 ?s)"
    using assms(4) by (simp add: udp_work_slot_unfold ceil_slot)
  have keep: "f (dev r) = f (dev ?s)"
    if "\<And>d v. f (d\<lparr>packet_sequence_number := v\<rparr>) = f d" and "\<And>d v. f (d\<lparr>stats := v\<rparr>) = f d"
    for f :: "antsdr_dma_dev \<Rightarrow> 'a"
    unfolding r using that by (rule udp_fragment_loop_keeps)
  have s1: "sock (dev ?s)" "dest_set (dev ?s)"
    using assms(1,2) by (simp_all add: return_buffer_fields)
  note cnt = udp_fragment_loop_all_sent_counts [OF s1, where rd = rd and pl = RING_BUFFER_SIZE
      and fid = "frame_id_counter (dev s)" and fn = 2 and i = 0 and off = 0, folded r]
  show "sock (dev r)" using keep [of sock] s1 by simp
  show "dest_set (dev r)" using keep [of dest_set] s1 by simp
  show "ring_buffer_size (dev r) = ring_buffer_size (dev s)"
    using keep [of ring_buffer_size] by (simp add: antsdr_ring_return_buffer_def)
  show "ring_size (dev r) = ring_size (dev s)"
    using keep [of ring_size] by (simp add: antsdr_ring_return_buffer_def)
  show "ring_buffers (dev r) = ring_buffers (dev s)"
    using keep [of ring_buffers] by (simp add: antsdr_ring_return_buffer_def)
  show "missing_frame_count (dev r) = missing_frame_count (dev s)"
    using keep [of missing_frame_count] by (simp add: antsdr_ring_return_buffer_def)
  show "ring_tail (dev r) = (ring_tail (dev s) + 1) mod ring_size (dev s)"
    using keep [of ring_tail] assms(3) by (simp add: antsdr_ring_return_buffer_def)
  show "ring_count (dev r) = ring_count (dev s) - 1"
    using keep [of ring_count] assms(3) by (simp add: antsdr_ring_return_buffer_def)
  show "frame_id_counter (dev r) = frame_id_counter (dev s) + 1"
    using keep [of frame_id_counter] by simp
  show "packet_sequence_number (dev r) = packet_sequence_number (dev s) + 2"
    using cnt by (simp add: return_buffer_fields)
  show "packets_sent r = packets_sent s + 2"
    using cnt by simp
qed

lemma frame_packets_shift:
  assumes "ring_buffers e = ring_buffers d" and "ring_size e = ring_size d"
    and "missing_frame_count e = missing_frame_count d"
    and "ring_tail e = (ring_tail d + 1) mod ring_size d"
    and "frame_id_counter e = frame_id_counter d + 1"
    and "packet_sequence_number e = packet_sequence_number d + 2"
  shows "frame_packets e j = frame_packets d (Suc j)"
proof -
  have "((ring_tail d + 1) mod ring_size d + j) mod ring_size d = (ring_tail d + Suc j) mod ring_size d"
    using mod_add_left_eq [of "ring_tail d + 1" "ring_size d" j] by simp
  then show ?thesis
    unfolding frame_packets_def assms by (simp add: algebra_simps)
qed

lemma udp_work_loop_stop:
  "\<not> packets_sent s < 200 \<or> ring_count (dev s) = 0 \<Longrightarrow> udp_work_loop tx s = s"
  by (subst udp_work_loop.simps) (auto simp: antsdr_ring_get_def)

lemma udp_work_loop_step:
  "packets_sent s < 200 \<Longrightarrow> 0 < ring_count (dev s) \<Longrightarrow>
   udp_work_loop tx s =
     (if snd (udp_work_slot tx (ring_tail (dev s)) (ring_buffer_size (dev s)) s)
      then fst (udp_work_slot tx (ring_tail (dev s)) (ring_buffer_size (dev s)) s)
      else udp_work_loop tx (fst (udp_work_slot tx (ring_tail (dev s)) (ring_buffer_size (dev s)) s)))"
  by (subst udp_work_loop.simps) (simp add: antsdr_ring_get_def split: prod.splits)

lemma udp_work_loop_all_sent:
  "sock (dev s) \<Longrightarrow> dest_set (dev s) \<Longrightarrow> ring_buffer_size (dev s) = RING_BUFFER_SIZE \<Longrightarrow>
   ring_tail (dev s) < ring_size (dev s) \<Longrightarrow> packets_sent s = 2 * a \<Longrightarrow> a \<le> 100 \<Longrightarrow>
   k = min (ring_count (dev s)) (100 - a) \<Longrightarrow>
   wire (udp_work_loop (\<lambda>p. True) s) = wire s @ concat (map (frame_packets (dev s)) [0..<k]) \<and>
   ring_count (dev (udp_work_loop (\<lambda>p. True) s)) = ring_count (dev s) - k"
proof (induction k arbitrary: s a)
  case 0
  then have "\<not> packets_sent s < 200 \<or> ring_count (dev s) = 0" by auto
  then have "udp_work_loop (\<lambda>p. True) s = s" by (rule udp_work_loop_stop)
  then show ?case by simp
next
  case (Suc k)
  then have pos: "0 < ring_count (dev s)" and lt: "packets_sent s < 200" by auto
  let ?r = "fst (udp_work_slot (\<lambda>p. True) (ring_tail (dev s)) RING_BUFFER_SIZE s)"
  note st = udp_work_slot_state [OF Suc.prems(1,2) pos refl, where rd = "ring_tail (dev s)"]
  have slot: "wire ?r = wire s @ frame_packets (dev s) 0"
     and ok: "\<not> snd (udp_work_slot (\<lambda>p. True) (ring_tail (dev s)) RING_BUFFER_SIZE s)"
    using udp_work_slot_all_sent [where tx = "\<lambda>p. True" and s = s and rd = "ring_tail (dev s)" and pl = RING_BUFFER_SIZE]
      Suc.prems(1,2,4)
    by (simp_all add: ceil_slot frame_packets_def)
  have loop: "udp_work_loop (\<lambda>p. True) s = udp_work_loop (\<lambda>p. True) ?r"
    using udp_work_loop_step [OF lt pos, of "\<lambda>p. True"] ok by (simp add: Suc.prems(3))
  have k: "k = min (ring_count (dev ?r)) (100 - (a + 1))"
    using Suc.prems(7) by (simp add: st)
  have ih: "wire (udp_work_loop (\<lambda>p. True) ?r) = wire ?r @ concat (map (frame_packets (dev ?r)) [0..<k]) \<and>
     ring_count (dev (udp_work_loop (\<lambda>p. True) ?r)) = ring_count (dev ?r) - k"
  proof (rule Suc.IH [where a = "a + 1"])
    show "sock (dev ?r)" by (rule st)
    show "dest_set (dev ?r)" by (rule st)
    show "ring_buffer_size (dev ?r) = RING_BUFFER_SIZE" using Suc.prems(3) by (simp add: st)
    show "ring_tail (dev ?r) < ring_size (dev ?r)" using Suc.prems(4) by (simp add: st)
    show "packets_sent ?r = 2 * (a + 1)" using Suc.prems(5) by (simp add: st)
    show "a + 1 \<le> 100" using Suc.prems(7) by simp
    show "k = min (ring_count (dev ?r)) (100 - (a + 1))" by (rule k)
  qed
  have sh: "frame_packets (dev ?r) = (\<lambda>j. frame_packets (dev s) (Suc j))"
    by (rule ext, rule frame_packets_shift) (simp_all add: st)
  have m: "map (frame_packets (dev s)) [0..<Suc k] = frame_packets (dev s) 0 # map (\<lambda>j. frame_packets (dev s) (Suc j)) [0..<k]"
    by (rule map_upt_Suc)
  show ?case
    unfolding loop m using ih pos by (simp add: slot sh st)
qed

lemma concat_pairs:
  assumes "\<And>j. length (f j) = 2"
  shows "length (concat (map f [0..<m])) = 2 * m"
    and "j < m \<Longrightarrow> k < 2 \<Longrightarrow> concat (map f [0..<m]) ! (2 * j + k) = f j ! k"
proof -
  show len: "length (concat (map f [0..<m])) = 2 * m" for m
    by (induction m) (simp_all add: assms)
  show "j < m \<Longrightarrow> k < 2 \<Longrightarrow> concat (map f [0..<m]) ! (2 * j + k) = f j ! k"
  proof (induction m)
    case 0
    then show ?case by simp
  next
    case (Suc m)
    show ?case
    proof (cases "j < m")
      case True
      then have "2 * j + k < 2 * m" using Suc.prems(2) by simp
      then show ?thesis
        using Suc.IH [OF True Suc.prems(2)] by (simp add: nth_append len)
    next
      case False
      then have "j = m" using Suc.prems(1) by simp
      then show ?thesis by (simp add: nth_append len)
    qed
  qed
qed

lemma frame_packets_nth:
  "length (frame_packets d j) = 2"
  "k < 2 \<Longrightarrow> frame_packets d j ! k =
     fragment_packet (ring_buffers d ! ((ring_tail d + j) mod ring_size d))
       (packet_sequence_number d + of_nat (2 * j)) (missing_frame_count d)
       RING_BUFFER_SIZE (frame_id_counter d + of_nat j) 2 k"
  by (simp_all add: frame_packets_def)

lemma udp_work_all_sent:
  assumes "sock d" and "dest_set d" and "ring_buffer_size d = RING_BUFFER_SIZE" and "ring_tail d < ring_size d"
  shows "snd (antsdr_udp_work (\<lambda>p. True) True d) = concat (map (frame_packets d) [0..<min (ring_count d) 100])"
    and "ring_count (fst (antsdr_udp_work (\<lambda>p. True) True d)) = ring_count d - min (ring_count d) 100"
  using udp_work_loop_all_sent [where s = "\<lparr>dev = d, wire = [], packets_sent = 0\<rparr>" and a = 0
      and k = "min (ring_count d) 100"] assms
  by (simp_all add: antsdr_udp_work_def Let_def)

lemma udp_work_all_sent_nth:
  assumes "sock d" and "dest_set d" and "ring_buffer_size d = RING_BUFFER_SIZE" and "ring_tail d < ring_size d"
    and "j < min (ring_count d) 100" and "k < 2"
  shows "snd (antsdr_udp_work (\<lambda>p. True) True d) ! (2 * j + k) =
     fragment_packet (ring_buffers d ! ((ring_tail d + j) mod ring_size d))
       (packet_sequence_number d + of_nat (2 * j)) (missing_frame_count d)
       RING_BUFFER_SIZE (frame_id_counter d + of_nat j) 2 k"
  unfolding udp_work_all_sent(1) [OF assms(1-4)]
  using concat_pairs(2) [where f = "frame_packets d", OF frame_packets_nth(1) assms(5,6)]
    frame_packets_nth(2) [OF assms(6)]
  by simp


lemma fragment_packet_fields:
  "hdr_frame_id (pkt_header (fragment_packet slot sq missing pl fid fn k)) = fid"
  "hdr_fragment_count (pkt_header (fragment_packet slot sq missing pl fid fn k)) = of_nat fn"
  "hdr_fragment_index (pkt_header (fragment_packet slot sq missing pl fid fn k)) = of_nat k"
  "hdr_fragment_offset (pkt_header (fragment_packet slot sq missing pl fid fn k)) = of_nat (k * ANTSDR_MAX_PAYLOAD_SIZE)"
  "hdr_payload_length (pkt_header (fragment_packet slot sq missing pl fid fn k)) =
     of_nat (min (pl - k * ANTSDR_MAX_PAYLOAD_SIZE) ANTSDR_MAX_PAYLOAD_SIZE)"
  "hdr_frame_payload_total (pkt_header (fragment_packet slot sq missing pl fid fn k)) = of_nat pl"
  "hdr_sequence_number (pkt_header (fragment_packet slot sq missing pl fid fn k)) = sq + of_nat k"
  "pkt_payload (fragment_packet slot sq missing pl fid fn k) =
     take (min (pl - k * ANTSDR_MAX_PAYLOAD_SIZE) ANTSDR_MAX_PAYLOAD_SIZE) (drop (k * ANTSDR_MAX_PAYLOAD_SIZE) slot)"
  by (simp_all add: fragment_packet_def Let_def)






lemma udp_fragment_loop_headers:
  "p \<in> set (wire (fst (udp_fragment_loop tx rd pl fid fn i off s))) \<Longrightarrow>
      p \<in> set (wire s) \<or>
      hdr_frame_payload_total (pkt_header p) = of_nat pl \<and> hdr_fragment_count (pkt_header p) = of_nat fn"
proof (induction "fn - i" arbitrary: i off s)
  case 0
  then show ?case by (simp add: udp_fragment_loop_done)
next
  case (Suc n)
  then have lt: "i < fn" and n: "n = fn - (i + 1)" by auto
  let ?pkt = "build_packet (dev s) rd pl fid fn i off (min (pl - off) ANTSDR_MAX_PAYLOAD_SIZE)"
  have tot: "hdr_frame_payload_total (pkt_header ?pkt) = of_nat pl \<and> hdr_fragment_count (pkt_header ?pkt) = of_nat fn"
    by (simp add: build_packet_def Let_def)
  consider (sent) "sock (dev s)" "dest_set (dev s)" "tx ?pkt"
    | (failed) "sock (dev s)" "dest_set (dev s)" "\<not> tx ?pkt"
    | (unsent) "\<not> (sock (dev s) \<and> dest_set (dev s))"
    by blast
  then show ?case
  proof cases
    case sent
    have "udp_fragment_loop tx rd pl fid fn i off s =
      udp_fragment_loop tx rd pl fid fn (i + 1) (off + min (pl - off) ANTSDR_MAX_PAYLOAD_SIZE)
       (s\<lparr>dev := (dev s)\<lparr>packet_sequence_number := packet_sequence_number (dev s) + 1,
                           stats := (stats (dev s))\<lparr>udp_packets_sent := udp_packets_sent (stats (dev s)) + 1\<rparr>\<rparr>,
          wire := wire s @ [?pkt], packets_sent := packets_sent s + 1\<rparr>)"
      using lt sent by (rule udp_fragment_loop_sent)
    with Suc.prems have "p \<in> set (wire s @ [?pkt]) \<or>
        hdr_frame_payload_total (pkt_header p) = of_nat pl \<and> hdr_fragment_count (pkt_header p) = of_nat fn"
      using Suc.hyps(1) [OF n] by fastforce
    with tot show ?thesis by auto
  next
    case failed
    have "udp_fragment_loop tx rd pl fid fn i off s =
     (s\<lparr>dev := (dev s)\<lparr>packet_sequence_number := packet_sequence_number (dev s) + 1,
                          stats := (stats (dev s))\<lparr>errors := errors (stats (dev s)) + 1\<rparr>\<rparr>\<rparr>, True)"
      using lt failed by (rule udp_fragment_loop_failed)
    with Suc.prems show ?thesis by simp
  next
    case unsent
    have "udp_fragment_loop tx rd pl fid fn i off s =
     udp_fragment_loop tx rd pl fid fn (i + 1) (off + min (pl - off) ANTSDR_MAX_PAYLOAD_SIZE)
       (s\<lparr>dev := (dev s)\<lparr>packet_sequence_number := packet_sequence_number (dev s) + 1\<rparr>\<rparr>)"
      using lt unsent by (rule udp_fragment_loop_unsent)
    with Suc.prems show ?thesis
      using Suc.hyps(1) [OF n] by fastforce
  qed
qed

lemma udp_work_slot_headers:
  "p \<in> set (wire (fst (udp_work_slot tx rd rs s))) \<Longrightarrow>
      p \<in> set (wire s) \<or>
      hdr_frame_payload_total (pkt_header p) = of_nat rs \<and>
      hdr_fragment_count (pkt_header p) = of_nat ((rs + ANTSDR_MAX_PAYLOAD_SIZE - 1) div ANTSDR_MAX_PAYLOAD_SIZE)"
  unfolding udp_work_slot_unfold
  using udp_fragment_loop_headers [of p tx rd rs "frame_id_counter (dev s)"
      "(rs + ANTSDR_MAX_PAYLOAD_SIZE - 1) div ANTSDR_MAX_PAYLOAD_SIZE" 0 0]
  by fastforce

lemma udp_work_slot_size:
  "ring_buffer_size (dev (fst (udp_work_slot tx rd rs s))) = ring_buffer_size (dev s)"
  unfolding udp_work_slot_unfold
  using udp_fragment_loop_keeps [where f = ring_buffer_size]
  by (simp add: antsdr_ring_return_buffer_def)

lemma udp_work_loop_headers:
  "ring_buffer_size (dev s) = RING_BUFFER_SIZE \<Longrightarrow>
   \<forall>p \<in> set (wire s). hdr_frame_payload_total (pkt_header p) = 1600 \<and> hdr_fragment_count (pkt_header p) = 2 \<Longrightarrow>
   \<forall>p \<in> set (wire (udp_work_loop tx s)). hdr_frame_payload_total (pkt_header p) = 1600 \<and> hdr_fragment_count (pkt_header p) = 2"
proof (induction "ring_count (dev s)" arbitrary: s)
  case 0
  then have "udp_work_loop tx s = s" by (intro udp_work_loop_stop) simp
  with 0 show ?case by simp
next
  case (Suc n)
  let ?r = "udp_work_slot tx (ring_tail (dev s)) (ring_buffer_size (dev s)) s"
  have pos: "0 < ring_count (dev s)" using Suc.hyps(2) by simp
  have sz: "ring_buffer_size (dev (fst ?r)) = RING_BUFFER_SIZE"
    using Suc.prems(1) by (simp add: udp_work_slot_size)
  have hd: "\<forall>p \<in> set (wire (fst ?r)). hdr_frame_payload_total (pkt_header p) = 1600 \<and> hdr_fragment_count (pkt_header p) = 2"
  proof
    fix p assume "p \<in> set (wire (fst ?r))"
    then have "p \<in> set (wire s) \<or>
      hdr_frame_payload_total (pkt_header p) = of_nat (ring_buffer_size (dev s)) \<and>
      hdr_fragment_count (pkt_header p) =
        of_nat ((ring_buffer_size (dev s) + ANTSDR_MAX_PAYLOAD_SIZE - 1) div ANTSDR_MAX_PAYLOAD_SIZE)"
      by (rule udp_work_slot_headers)
    then show "hdr_frame_payload_total (pkt_header p) = 1600 \<and> hdr_fragment_count (pkt_header p) = 2"
      using Suc.prems(2) unfolding Suc.prems(1) ceil_slot(1) by (auto simp: RING_BUFFER_SIZE_def)
  qed
  show ?case
  proof (cases "packets_sent s < 200")
    case False
    then have "udp_work_loop tx s = s" by (intro udp_work_loop_stop) simp
    with Suc.prems(2) show ?thesis by simp
  next
    case True
    note step = udp_work_loop_step [OF True pos, of tx]
    show ?thesis
    proof (cases "snd ?r")
      case True
      with step hd show ?thesis by simp
    next
      case False
      have cnt: "n = ring_count (dev (fst ?r))"
        unfolding udp_work_slot_unfold
        using udp_fragment_loop_keeps [where f = ring_count] Suc.hyps(2) pos
        by (simp add: antsdr_ring_return_buffer_def)
      from False step have "udp_work_loop tx s = udp_work_loop tx (fst ?r)" by simp
      then show ?thesis
        using Suc.hyps(1) [OF cnt sz hd] by simp
    qed
  qed
qed

lemma ring_tail_init:
  "ring_tail (snd (antsdr_ring_init d0 mem)) < ring_size (snd (antsdr_ring_init d0 mem))"
  by (simp add: antsdr_ring_init_def Let_def RING_BUFFER_COUNT_def split: option.splits)

lemma ring_tail_apply:
  "ring_tail d < ring_size d \<Longrightarrow> ring_tail (ring_apply op d) < ring_size (ring_apply op d)"
  by (cases op) (simp_all add: antsdr_ring_put_def antsdr_ring_return_buffer_def Let_def)

lemma ring_tail_fold:
  "ring_tail d < ring_size d \<Longrightarrow> ring_tail (fold ring_apply ops d) < ring_size (fold ring_apply ops d)"
  by (induction ops arbitrary: d) (simp_all add: ring_tail_apply)

















subsection \<open>Frame extraction\<close>

text \<open>
  C1 (as amended). For every transfer whose first start marker is at word \<open>h\<close> and
  whose last end marker is at word \<open>f\<close>, with \<open>f - h + 1\<close> equal to the expected word
  count of the mode (53 short, 403 long), \<^verbatim>\<open>antsdr_parse_fpga_frame\<close> succeeds and
  returns the payload that begins one word after the start marker and has
  \<open>(expected_words - 3) * 4\<close> bytes, ending before the counter word. When the payload
  ring has a free slot (and slots of \<^verbatim>\<open>RING_BUFFER_SIZE\<close> bytes), \<^verbatim>\<open>antsdr_frame_work\<close>
  takes a slot and increases \<open>valid_frames\<close> and \<open>extracted_frames\<close> by exactly 1,
  whatever the freed transfer block holds. When the ring is full the frame is dropped:
  \<open>errors\<close> increases by 1 and neither counter changes.
\<close>

theorem valid_frame_extracted:
  assumes "first_header_at data h" and "last_footer_at data f"
    and "int f - int h + 1 = int (expected_frame_words d)"
  shows "antsdr_parse_fpga_frame d data =
           (gap_detection (d\<lparr>total_frames_processed := total_frames_processed d + 1\<rparr>) (word_at data (f - 1)),
            Frame_Extracted (4 * (h + 1)) ((expected_frame_words d - 3) * 4)) \<and>
         4 * (h + 1) + (expected_frame_words d - 3) * 4 = 4 * (f - 1) \<and> 4 * (f + 1) \<le> length data \<and>
         (ring_count d < ring_size d \<and> ring_buffer_size d = RING_BUFFER_SIZE \<longrightarrow>
            (let d' = fst (frame_work_one d l data freed) in
               valid_frames (stats d') = valid_frames (stats d) + 1 \<and>
               extracted_frames (stats d') = extracted_frames (stats d) + 1 \<and>
               invalid_frames (stats d') = invalid_frames (stats d) \<and>
               ring_count d' = ring_count d + 1)) \<and>
         (ring_size d \<le> ring_count d \<longrightarrow>
            (let d' = fst (frame_work_one d l data freed) in
               valid_frames (stats d') = valid_frames (stats d) \<and>
               extracted_frames (stats d') = extracted_frames (stats d) \<and>
               errors (stats d') = errors (stats d) + 1 \<and>
               ring_count d' = ring_count d \<and> ring_buffers d' = ring_buffers d))"
proof -
  have p: "antsdr_parse_fpga_frame d data =
           (gap_detection (d\<lparr>total_frames_processed := total_frames_processed d + 1\<rparr>) (word_at data (f - 1)),
            Frame_Extracted (4 * (h + 1)) ((expected_frame_words d - 3) * 4))"
    using assms by (rule parse_valid)
  have span: "4 * (h + 1) + (expected_frame_words d - 3) * 4 = 4 * (f - 1)"
    using assms(3) expected_frame_words_cases [of d] by auto
  have "f < length data div 4"
    using assms(2) by (simp add: last_footer_at_def)
  then have inside: "4 * (f + 1) \<le> length data"
    by arith
  have fits: "(expected_frame_words d - 3) * 4 \<le> RING_BUFFER_SIZE"
    using expected_frame_words_cases [of d] by (auto simp: RING_BUFFER_SIZE_def)
  have room: "ring_count d < ring_size d \<and> ring_buffer_size d = RING_BUFFER_SIZE \<longrightarrow>
            (let d' = fst (frame_work_one d l data freed) in
               valid_frames (stats d') = valid_frames (stats d) + 1 \<and>
               extracted_frames (stats d') = extracted_frames (stats d) + 1 \<and>
               invalid_frames (stats d') = invalid_frames (stats d) \<and>
               ring_count d' = ring_count d + 1)"
    using fits
    by (simp add: frame_work_one_valid [OF assms] antsdr_ring_put_def Let_def gap_detection_ring
        count_valid_frame_def memcpy_def)
  have full: "ring_size d \<le> ring_count d \<longrightarrow>
            (let d' = fst (frame_work_one d l data freed) in
               valid_frames (stats d') = valid_frames (stats d) \<and>
               extracted_frames (stats d') = extracted_frames (stats d) \<and>
               errors (stats d') = errors (stats d) + 1 \<and>
               ring_count d' = ring_count d \<and> ring_buffers d' = ring_buffers d)"
    by (simp add: frame_work_one_valid [OF assms] antsdr_ring_put_def Let_def gap_detection_ring)
  from p span inside room full show ?thesis by blast
qed

text \<open>
  C1 as stated fails: with the ring full, a transfer holding one well-formed frame is
  parsed successfully, but \<open>valid_frames\<close> and \<open>extracted_frames\<close> stay as they were.
\<close>

theorem valid_frame_dropped_when_ring_full:
  "first_header_at short_frame 0 \<and> last_footer_at short_frame 52 \<and>
   int 52 - int 0 + 1 = int (expected_frame_words full_dev) \<and>
   snd (antsdr_parse_fpga_frame full_dev short_frame) = Frame_Extracted 4 200 \<and>
   valid_frames (stats (fst (frame_work_one full_dev no_payload short_frame freed_block))) = valid_frames (stats full_dev) \<and>
   extracted_frames (stats (fst (frame_work_one full_dev no_payload short_frame freed_block))) = extracted_frames (stats full_dev)"
proof -
  have e: "int 52 - int 0 + 1 = int (expected_frame_words full_dev)"
    by (simp add: expected_frame_words_def full_dev_simps FPGA_SHORT_PULSE_WORDS_def)
  note m = short_frame_markers(1,2)
  have "snd (antsdr_parse_fpga_frame full_dev short_frame) = Frame_Extracted 4 200"
    using e by (simp add: parse_valid [OF m e])
  moreover have "valid_frames (stats (fst (frame_work_one full_dev no_payload short_frame freed_block))) = valid_frames (stats full_dev)"
    "extracted_frames (stats (fst (frame_work_one full_dev no_payload short_frame freed_block))) = extracted_frames (stats full_dev)"
    by (simp_all add: frame_work_one_valid [OF m e] antsdr_ring_put_def Let_def gap_detection_ring full_dev_simps)
  ultimately show ?thesis using m e by blast
qed

text \<open>The theorem of C1 at the transfer \<open>short_frame\<close>, on an empty and on a full ring.\<close>

theorem valid_frame_extracted_witness:
  "first_header_at short_frame 0 \<and> last_footer_at short_frame 52 \<and>
   int 52 - int 0 + 1 = int (expected_frame_words probed_dev) \<and>
   snd (antsdr_parse_fpga_frame probed_dev short_frame) = Frame_Extracted 4 200 \<and>
   valid_frames (stats (fst (frame_work_one probed_dev no_payload short_frame freed_block))) = 1 \<and>
   extracted_frames (stats (fst (frame_work_one probed_dev no_payload short_frame freed_block))) = 1 \<and>
   ring_count (fst (frame_work_one probed_dev no_payload short_frame freed_block)) = 1 \<and>
   errors (stats (fst (frame_work_one full_dev no_payload short_frame freed_block))) = 1"
proof -
  have e: "int 52 - int 0 + 1 = int (expected_frame_words probed_dev)"
    by (simp add: expected_frame_words_def probed_dev_simps FPGA_SHORT_PULSE_WORDS_def)
  have e': "int 52 - int 0 + 1 = int (expected_frame_words full_dev)"
    by (simp add: expected_frame_words_def full_dev_simps FPGA_SHORT_PULSE_WORDS_def)
  note m = short_frame_markers(1,2)
  show ?thesis
    using valid_frame_extracted [OF m e, of no_payload] valid_frame_extracted [OF m e', of no_payload] m e
    by (simp add: probed_dev_simps full_dev_simps Let_def RING_BUFFER_SIZE_def zeroed_stats_def)
qed

text \<open>
  C8. For every transfer in which a start marker and an end marker are found (the first
  start marker at word \<open>h\<close>, the last end marker at word \<open>f\<close>) and \<open>f - h + 1\<close>
  differs from the expected word count, \<^verbatim>\<open>antsdr_parse_fpga_frame\<close> returns -1 from its
  length-mismatch branch, \<^verbatim>\<open>antsdr_frame_work\<close> increases \<open>invalid_frames\<close> by exactly 1,
  nothing is put into the payload ring and nothing is added to the accumulation buffer.
\<close>

theorem length_mismatch_discarded:
  assumes "first_header_at data h" and "last_footer_at data f"
    and "int f - int h + 1 \<noteq> int (expected_frame_words d)"
  shows "antsdr_parse_fpga_frame d data =
           (d\<lparr>total_frames_processed := total_frames_processed d + 1\<rparr>, Length_Mismatch) \<and>
         parse_ret Length_Mismatch = - 1 \<and>
         frame_work_one d l data freed =
           (d\<lparr>total_frames_processed := total_frames_processed d + 1,
              stats := (stats d)\<lparr>invalid_frames := invalid_frames (stats d) + 1\<rparr>\<rparr>, l) \<and>
         (let d' = fst (frame_work_one d l data freed) in
            invalid_frames (stats d') = invalid_frames (stats d) + 1 \<and>
            valid_frames (stats d') = valid_frames (stats d) \<and>
            extracted_frames (stats d') = extracted_frames (stats d) \<and>
            ring_buffers d' = ring_buffers d \<and> ring_count d' = ring_count d \<and>
            ring_head d' = ring_head d \<and> ring_tail d' = ring_tail d \<and>
            frame_detection_buffer d' = frame_detection_buffer d \<and>
            frame_buffer_used d' = frame_buffer_used d \<and>
            frames_accumulated d' = frames_accumulated d)"
  by (simp add: frame_work_one_def parse_mismatch [OF assms] Let_def)

text \<open>The theorem of C8 at the transfer \<open>shifted_frame\<close>.\<close>

theorem length_mismatch_discarded_witness:
  "first_header_at shifted_frame 1 \<and> last_footer_at shifted_frame 52 \<and>
   int 52 - int 1 + 1 \<noteq> int (expected_frame_words probed_dev) \<and>
   snd (antsdr_parse_fpga_frame probed_dev shifted_frame) = Length_Mismatch \<and>
   invalid_frames (stats (fst (frame_work_one probed_dev no_payload shifted_frame freed_block))) = 1 \<and>
   ring_count (fst (frame_work_one probed_dev no_payload shifted_frame freed_block)) = 0 \<and>
   frame_buffer_used (fst (frame_work_one probed_dev no_payload shifted_frame freed_block)) = 0"
proof -
  have e: "int 52 - int 1 + 1 \<noteq> int (expected_frame_words probed_dev)"
    by (simp add: expected_frame_words_def probed_dev_simps FPGA_SHORT_PULSE_WORDS_def)
  note m = shifted_frame_markers(1,2)
  show ?thesis
    using length_mismatch_discarded [OF m e, of no_payload] m e
    by (simp add: probed_dev_simps Let_def zeroed_stats_def probed_dev_def antsdr_ring_init_def zeroed_dev_def)
qed

subsection \<open>Reprocessing of the accumulation buffer\<close>





subsection \<open>Gap tracking\<close>

text \<open>
  C3 (as amended). For a valid frame the extractor runs the gap detection once, on the
  word before the end marker. The first valid frame seeds \<open>last_frame_counter\<close> without comparison.
  On each later valid frame with counter \<open>c\<close>, \<open>last_frame_counter\<close> is set to \<open>c\<close>; if
  \<open>c > last_frame_counter + 1\<close> then \<open>missing_frame_count\<close> increases by
  \<open>c - last_frame_counter - 1\<close> (modulo \<open>2^32\<close>); if \<open>c \<le> last_frame_counter\<close> and
  \<open>last_frame_counter\<close> is not \<^verbatim>\<open>0xFFFFFFFF\<close> then \<open>missing_frame_count\<close> is unchanged.
  At \<open>last_frame_counter = 0xFFFFFFFF\<close> the expected counter wraps to 0 and every
  \<open>c > 0\<close> adds \<open>c\<close>. From a reset state the counters 5, 6, 8, 9 give a missing count
  of 1, and 5, 7, 6 give 1, the same as after 5, 7.
\<close>

theorem gap_detection_rule:
  "(first_header_at data h \<and> last_footer_at data f \<and> int f - int h + 1 = int (expected_frame_words d) \<longrightarrow>
      fst (antsdr_parse_fpga_frame d data) =
        gap_detection (d\<lparr>total_frames_processed := total_frames_processed d + 1\<rparr>) (word_at data (f - 1))) \<and>
   (\<not> first_frame_received d \<longrightarrow>
      gap_detection d c = d\<lparr>last_frame_counter := c, first_frame_received := True\<rparr>) \<and>
   (first_frame_received d \<longrightarrow>
      last_frame_counter (gap_detection d c) = c \<and>
      first_frame_received (gap_detection d c) \<and>
      (unat (last_frame_counter d) + 1 < unat c \<longrightarrow>
         missing_frame_count (gap_detection d c) = missing_frame_count d + (c - last_frame_counter d - 1)) \<and>
      (last_frame_counter d \<noteq> 0xFFFFFFFF \<and> c \<le> last_frame_counter d \<longrightarrow>
         missing_frame_count (gap_detection d c) = missing_frame_count d) \<and>
      (last_frame_counter d = 0xFFFFFFFF \<and> 0 < c \<longrightarrow>
         missing_frame_count (gap_detection d c) = missing_frame_count d + c)) \<and>
   missing_frame_count (feed_counters [5, 6, 8, 9] (gap_reset d)) = 1 \<and>
   missing_frame_count (feed_counters [5, 7] (gap_reset d)) = 1 \<and>
   missing_frame_count (feed_counters [5, 7, 6] (gap_reset d)) = 1"
proof -
  have direct: "fst (antsdr_parse_fpga_frame d data) =
        gap_detection (d\<lparr>total_frames_processed := total_frames_processed d + 1\<rparr>) (word_at data (f - 1))"
    if "first_header_at data h" and "last_footer_at data f"
      and "int f - int h + 1 = int (expected_frame_words d)"
    using parse_valid [OF that] by simp
  have seed: "\<not> first_frame_received d \<Longrightarrow>
      gap_detection d c = d\<lparr>last_frame_counter := c, first_frame_received := True\<rparr>"
    by (simp add: gap_detection_def)
  have last: "first_frame_received d \<Longrightarrow>
      last_frame_counter (gap_detection d c) = c \<and> first_frame_received (gap_detection d c)"
    by (simp add: gap_detection_def Let_def)
  have gap: "first_frame_received d \<Longrightarrow> unat (last_frame_counter d) + 1 < unat c \<Longrightarrow>
      missing_frame_count (gap_detection d c) = missing_frame_count d + (c - last_frame_counter d - 1)"
    using gap_no_wrap [of "last_frame_counter d" c]
    by (simp add: gap_detection_def Let_def diff_diff_eq)
  have ooo: "first_frame_received d \<Longrightarrow> last_frame_counter d \<noteq> 0xFFFFFFFF \<Longrightarrow>
      c \<le> last_frame_counter d \<Longrightarrow>
      missing_frame_count (gap_detection d c) = missing_frame_count d"
    using gap_out_of_order [of "last_frame_counter d" c]
    by (simp add: gap_detection_def Let_def)
  have wrap: "missing_frame_count (gap_detection d c) = missing_frame_count d + c"
    if f: "first_frame_received d" and m: "last_frame_counter d = 0xFFFFFFFF" and p: "0 < c"
  proof -
    have e: "last_frame_counter d + 1 = 0" using m by simp
    show ?thesis using f p by (simp add: gap_detection_def Let_def e)
  qed
  have s1: "missing_frame_count (feed_counters [5, 6, 8, 9] (gap_reset d)) = 1"
    by (simp add: feed_counters_def gap_detection_def gap_reset_def Let_def)
  have s2: "missing_frame_count (feed_counters [5, 7] (gap_reset d)) = 1"
    by (simp add: feed_counters_def gap_detection_def gap_reset_def Let_def)
  have s3: "missing_frame_count (feed_counters [5, 7, 6] (gap_reset d)) = 1"
    by (simp add: feed_counters_def gap_detection_def gap_reset_def Let_def)
  from direct seed last gap ooo wrap s1 s2 s3 show ?thesis by blast
qed

text \<open>
  C3 as stated fails at the wrap-around of the 32-bit counter: with
  \<open>last_frame_counter = 0xFFFFFFFF\<close> the frame counter 5 is not larger than
  \<open>last_frame_counter\<close>, and \<open>missing_frame_count\<close> goes from 0 to 5.
\<close>

theorem gap_detection_wraps_at_max:
  "first_frame_received (zeroed_dev\<lparr>first_frame_received := True, last_frame_counter := 0xFFFFFFFF\<rparr>) \<and>
   (5::u32) \<le> last_frame_counter (zeroed_dev\<lparr>first_frame_received := True, last_frame_counter := 0xFFFFFFFF\<rparr>) \<and>
   missing_frame_count (zeroed_dev\<lparr>first_frame_received := True, last_frame_counter := 0xFFFFFFFF\<rparr>) = 0 \<and>
   missing_frame_count
     (gap_detection (zeroed_dev\<lparr>first_frame_received := True, last_frame_counter := 0xFFFFFFFF\<rparr>) 5) = 5"
  by (simp add: gap_detection_def Let_def zeroed_dev_def)

text \<open>The theorem of C3 at the first frame, at a gap and at an out-of-order counter.\<close>

theorem gap_detection_rule_witness:
  "first_header_at short_frame 0 \<and> last_footer_at short_frame 52 \<and>
   int 52 - int 0 + 1 = int (expected_frame_words zeroed_dev) \<and>
   last_frame_counter (fst (antsdr_parse_fpga_frame zeroed_dev short_frame)) = 7 \<and>
   gap_detection zeroed_dev 5 = zeroed_dev\<lparr>last_frame_counter := 5, first_frame_received := True\<rparr> \<and>
   missing_frame_count (gap_detection (gap_detection zeroed_dev 5) 8) = 2 \<and>
   missing_frame_count (gap_detection (gap_detection zeroed_dev 5) 3) = 0 \<and>
   last_frame_counter (gap_detection (gap_detection zeroed_dev 5) 3) = 3"
proof -
  have e: "int 52 - int 0 + 1 = int (expected_frame_words zeroed_dev)"
    by (simp add: expected_frame_words_def zeroed_dev_def FPGA_SHORT_PULSE_WORDS_def)
  have z: "\<not> first_frame_received (zeroed_dev\<lparr>total_frames_processed := total_frames_processed zeroed_dev + 1\<rparr>)"
    by (simp add: zeroed_dev_def)
  have "last_frame_counter (fst (antsdr_parse_fpga_frame zeroed_dev short_frame)) = 7"
    using gap_detection_rule [of short_frame 0 52 zeroed_dev 0] short_frame_markers e
    by (simp add: gap_detection_def z)
  moreover have "gap_detection zeroed_dev 5 = zeroed_dev\<lparr>last_frame_counter := 5, first_frame_received := True\<rparr> \<and>
   missing_frame_count (gap_detection (gap_detection zeroed_dev 5) 8) = 2 \<and>
   missing_frame_count (gap_detection (gap_detection zeroed_dev 5) 3) = 0 \<and>
   last_frame_counter (gap_detection (gap_detection zeroed_dev 5) 3) = 3"
    using gap_detection_rule [of short_frame 0 52 zeroed_dev 5]
      gap_detection_rule [of short_frame 0 52 "zeroed_dev\<lparr>last_frame_counter := 5, first_frame_received := True\<rparr>" 8]
      gap_detection_rule [of short_frame 0 52 "zeroed_dev\<lparr>last_frame_counter := 5, first_frame_received := True\<rparr>" 3]
    by (simp add: zeroed_dev_def)
  ultimately show ?thesis
    using short_frame_markers(1,2) e by blast
qed

subsection \<open>Payload ring\<close>

text \<open>
  C7 (as amended). On a ring holding as many payloads as it has slots, the next
  \<^verbatim>\<open>antsdr_ring_put\<close> returns an error and the device state, with every slot, head, tail
  and count, is exactly as before. A put of more than \<open>ring_buffer_size\<close> bytes, on any
  ring, returns \<^verbatim>\<open>-EINVAL\<close> and changes nothing. On a ring that is not full, a put of at
  most \<open>ring_buffer_size\<close> bytes succeeds, writes the bytes at the start of the slot at the
  head, leaves every other slot as it was, advances the head and increases the count by 1.
\<close>

theorem ring_put_full_fails_unchanged:
  "(ring_size d \<le> ring_count d \<longrightarrow> (\<exists>e. antsdr_ring_put d data n = (Inl e, d))) \<and>
   (ring_buffer_size d < n \<longrightarrow> antsdr_ring_put d data n = (Inl EINVAL, d)) \<and>
   (ring_count d < ring_size d \<and> n \<le> ring_buffer_size d \<and> ring_head d < length (ring_buffers d) \<and> n \<le> length data \<longrightarrow>
      (case antsdr_ring_put d data n of (ret, d') \<Rightarrow>
         ret = Inr () \<and> ring_count d' = ring_count d + 1 \<and>
         take n (ring_buffers d' ! ring_head d) = take n data \<and>
         drop n (ring_buffers d' ! ring_head d) = drop n (ring_buffers d ! ring_head d) \<and>
         (\<forall>i. i \<noteq> ring_head d \<longrightarrow> ring_buffers d' ! i = ring_buffers d ! i) \<and>
         ring_head d' = (ring_head d + 1) mod ring_size d \<and> ring_tail d' = ring_tail d))"
  by (simp add: antsdr_ring_put_def Let_def memcpy_def)

text \<open>
  C7 as stated fails: on the empty ring a put of 1601 bytes, one more than a slot holds,
  is rejected with \<^verbatim>\<open>-EINVAL\<close> and stores nothing.
\<close>

theorem ring_put_oversized_rejected:
  "ring_count probed_dev < ring_size probed_dev \<and>
   antsdr_ring_put probed_dev (replicate 1601 0) 1601 = (Inl EINVAL, probed_dev)"
  by (simp add: antsdr_ring_put_def probed_dev_simps)

text \<open>
  The theorem of C7 on the full ring, on the empty ring, and for a put of 2000 bytes on
  the ring holding one payload.
\<close>

theorem ring_put_full_fails_unchanged_witness:
  "ring_size full_dev \<le> ring_count full_dev \<and>
   (\<exists>e. antsdr_ring_put full_dev [1, 2, 3] 3 = (Inl e, full_dev)) \<and>
   ring_count probed_dev < ring_size probed_dev \<and>
   (case antsdr_ring_put probed_dev [1, 2, 3] 3 of (ret, d') \<Rightarrow>
      ret = Inr () \<and> ring_count d' = 1 \<and> take 3 (ring_buffers d' ! 0) = [1, 2, 3]) \<and>
   ring_buffer_size queued_dev < 2000 \<and>
   antsdr_ring_put queued_dev (replicate 2000 7) 2000 = (Inl EINVAL, queued_dev)"
  using ring_put_full_fails_unchanged [of full_dev "[1, 2, 3]" 3]
    ring_put_full_fails_unchanged [of probed_dev "[1, 2, 3]" 3]
    ring_put_full_fails_unchanged [of queued_dev "replicate 2000 7" 2000]
  by (simp add: probed_dev_simps full_dev_simps queued_dev_simps fresh_slots_simps split: prod.splits)

text \<open>
  C10. After \<^verbatim>\<open>antsdr_ring_init\<close> and any sequence of puts (of any number of bytes)
  and releases, every \<^verbatim>\<open>antsdr_ring_get\<close> on a non-empty ring reports the slot at the
  tail with size 1600, the slot capacity. \<^verbatim>\<open>antsdr_udp_work\<close> takes that size as the
  payload length: whatever the network accepts, every packet it sends carries 1600 as the
  total payload length and 2 as the fragment count; and when the socket and destination
  are set and every send succeeds, it sends two packets for each slot it consumes, at
  most 100 slots, of 1360 and 240 payload bytes.
\<close>

theorem ring_get_reports_slot_size:
  assumes "d = fold ring_apply ops (snd (antsdr_ring_init d0 mem))" and "0 < ring_count d"
  shows "antsdr_ring_get d = Inr (ring_tail d, 1600) \<and>
         (\<forall>p \<in> set (snd (antsdr_udp_work kernel_sendmsg True d)).
            hdr_frame_payload_total (pkt_header p) = 1600 \<and> hdr_fragment_count (pkt_header p) = 2) \<and>
         (sock d \<and> dest_set d \<longrightarrow>
            length (snd (antsdr_udp_work (\<lambda>p. True) True d)) = 2 * min (ring_count d) 100 \<and>
            hdr_frame_payload_total (pkt_header (snd (antsdr_udp_work (\<lambda>p. True) True d) ! 0)) = 1600 \<and>
            hdr_payload_length (pkt_header (snd (antsdr_udp_work (\<lambda>p. True) True d) ! 0)) = 1360 \<and>
            hdr_payload_length (pkt_header (snd (antsdr_udp_work (\<lambda>p. True) True d) ! 1)) = 240)"
proof -
  have sz: "ring_buffer_size d = RING_BUFFER_SIZE"
    using assms(1) by (simp add: ring_buffer_size_fold ring_init_size)
  have tl: "ring_tail d < ring_size d"
    unfolding assms(1) using ring_tail_init by (rule ring_tail_fold)
  have g: "antsdr_ring_get d = Inr (ring_tail d, 1600)"
    using assms(2) sz by (simp add: antsdr_ring_get_def RING_BUFFER_SIZE_def)
  have w: "\<forall>p \<in> set (snd (antsdr_udp_work kernel_sendmsg True d)).
            hdr_frame_payload_total (pkt_header p) = 1600 \<and> hdr_fragment_count (pkt_header p) = 2"
    using udp_work_loop_headers [where s = "\<lparr>dev = d, wire = [], packets_sent = 0\<rparr>" and tx = kernel_sendmsg] sz
    by (simp add: antsdr_udp_work_def Let_def)
  have s: "length (snd (antsdr_udp_work (\<lambda>p. True) True d)) = 2 * min (ring_count d) 100 \<and>
            hdr_frame_payload_total (pkt_header (snd (antsdr_udp_work (\<lambda>p. True) True d) ! 0)) = 1600 \<and>
            hdr_payload_length (pkt_header (snd (antsdr_udp_work (\<lambda>p. True) True d) ! 0)) = 1360 \<and>
            hdr_payload_length (pkt_header (snd (antsdr_udp_work (\<lambda>p. True) True d) ! 1)) = 240"
    if on: "sock d" "dest_set d"
  proof -
    note base = on sz tl
    have j: "0 < min (ring_count d) 100" using assms(2) by simp
    have len: "length (snd (antsdr_udp_work (\<lambda>p. True) True d)) = 2 * min (ring_count d) 100"
      unfolding udp_work_all_sent(1) [OF base]
      by (rule concat_pairs(1)) (rule frame_packets_nth(1))
    show ?thesis
      using len udp_work_all_sent_nth [OF base j, of 0] udp_work_all_sent_nth [OF base j, of 1]
      by (simp add: fragment_packet_fields RING_BUFFER_SIZE_def ANTSDR_MAX_PAYLOAD_SIZE_def)
  qed
  from g w s show ?thesis by blast
qed

text \<open>
  The theorem of C10 after one put of 3 bytes: the size reported is 1600, and the two
  packets sent carry 1600 as the total payload length.
\<close>

theorem ring_get_reports_slot_size_witness:
  "0 < ring_count (fold ring_apply [Put [1, 2, 3] 3] (snd (antsdr_ring_init streaming_dev (Some fresh_slots)))) \<and>
   sock (fold ring_apply [Put [1, 2, 3] 3] (snd (antsdr_ring_init streaming_dev (Some fresh_slots)))) \<and>
   dest_set (fold ring_apply [Put [1, 2, 3] 3] (snd (antsdr_ring_init streaming_dev (Some fresh_slots)))) \<and>
   antsdr_ring_get (fold ring_apply [Put [1, 2, 3] 3] (snd (antsdr_ring_init streaming_dev (Some fresh_slots)))) = Inr (0, 1600) \<and>
   length (snd (antsdr_udp_work (\<lambda>p. True) True
     (fold ring_apply [Put [1, 2, 3] 3] (snd (antsdr_ring_init streaming_dev (Some fresh_slots)))))) = 2 \<and>
   hdr_frame_payload_total (pkt_header (snd (antsdr_udp_work (\<lambda>p. True) True
     (fold ring_apply [Put [1, 2, 3] 3] (snd (antsdr_ring_init streaming_dev (Some fresh_slots))))) ! 0)) = 1600 \<and>
   hdr_payload_length (pkt_header (snd (antsdr_udp_work (\<lambda>p. True) True
     (fold ring_apply [Put [1, 2, 3] 3] (snd (antsdr_ring_init streaming_dev (Some fresh_slots))))) ! 1)) = 240"
proof -
  let ?d = "fold ring_apply [Put [1, 2, 3] 3] (snd (antsdr_ring_init streaming_dev (Some fresh_slots)))"
  have d: "ring_count ?d = 1" "sock ?d" "dest_set ?d" "ring_tail ?d = 0"
    by (simp_all add: antsdr_ring_put_def antsdr_ring_init_def Let_def RING_BUFFER_COUNT_def RING_BUFFER_SIZE_def
        streaming_dev_simps)
  have pos: "0 < ring_count ?d"
    by (simp only: d)
  from ring_get_reports_slot_size [OF refl pos, where kernel_sendmsg = "\<lambda>p. True"] d pos
  show ?thesis
    by simp
qed

text \<open>
  C6 (what the code does). \<^verbatim>\<open>antsdr_udp_work\<close> releases the slot before it copies the
  fragments out of it. On a full ring, after the consumer's get and release, a put by the
  producer succeeds and writes into the very slot the consumer holds; the fragments
  copied afterwards carry the bytes of the new payload.
\<close>

theorem ring_slot_released_before_copy:
  assumes "ring_wf d" and "ring_count d = ring_size d" and "n \<le> ring_buffer_size d"
    and "\<forall>p. kernel_sendmsg p" and "sock d" and "dest_set d"
  shows "(case antsdr_ring_get d of
            Inl e \<Rightarrow> False
          | Inr (ring_data, ring_size_out) \<Rightarrow>
              (let ((payload_len, fragments_needed, current_frame_id), d1) = udp_slot_begin d ring_size_out;
                   (ret, d2) = antsdr_ring_put d1 new n;
                   r = udp_fragment_loop kernel_sendmsg ring_data payload_len current_frame_id
                         fragments_needed 0 0 \<lparr>dev = d2, wire = [], packets_sent = 0\<rparr>
               in ret = Inr () \<and>
                  ring_buffers d2 ! ring_data = take n new @ drop n (ring_buffers d ! ring_data) \<and>
                  concat (map pkt_payload (wire (fst r))) =
                    take payload_len (take n new @ drop n (ring_buffers d ! ring_data))))"
proof -
  from assms(1,2) have pos: "0 < ring_count d" and ht: "ring_head d = ring_tail d"
    and tl: "ring_tail d < length (ring_buffers d)"
    by (simp_all add: ring_wf_def)
  have g: "antsdr_ring_get d = Inr (ring_tail d, ring_buffer_size d)"
    using pos by (simp add: antsdr_ring_get_def)
  let ?n = "(ring_buffer_size d + ANTSDR_MAX_PAYLOAD_SIZE - 1) div ANTSDR_MAX_PAYLOAD_SIZE"
  let ?d1 = "(antsdr_ring_return_buffer d)\<lparr>frame_id_counter := frame_id_counter d + 1\<rparr>"
  have b: "udp_slot_begin d (ring_buffer_size d) = ((ring_buffer_size d, ?n, frame_id_counter d), ?d1)"
    by (simp add: udp_slot_begin_def Let_def return_buffer_fields)
  let ?d2 = "?d1\<lparr>ring_buffers := (ring_buffers d)[ring_tail d := take n new @ drop n (ring_buffers d ! ring_tail d)],
                  ring_head := (ring_tail d + 1) mod ring_size d, ring_count := ring_size d\<rparr>"
  have p: "antsdr_ring_put ?d1 new n = (Inr (), ?d2)"
    using assms(2,3) pos ht
    by (simp add: antsdr_ring_put_def antsdr_ring_return_buffer_def Let_def memcpy_def)
  have slot: "ring_buffers ?d2 ! ring_tail d = take n new @ drop n (ring_buffers d ! ring_tail d)"
    using tl by simp
  from assms(4) have all: "\<And>p. kernel_sendmsg p" by simp
  have c: "concat (map pkt_payload (wire (fst (udp_fragment_loop kernel_sendmsg (ring_tail d) (ring_buffer_size d)
              (frame_id_counter d) ?n 0 0 \<lparr>dev = ?d2, wire = [], packets_sent = 0\<rparr>)))) =
           take (ring_buffer_size d) (take n new @ drop n (ring_buffers d ! ring_tail d))"
    using udp_fragment_loop_payload [OF all, where s = "\<lparr>dev = ?d2, wire = [], packets_sent = 0\<rparr>"
        and rd = "ring_tail d" and pl = "ring_buffer_size d" and fid = "frame_id_counter d"]
      assms(5,6) slot
    by (simp add: antsdr_ring_return_buffer_def)
  show ?thesis
    apply (simp only: g sum.case prod.case)
    apply (simp only: b Let_def prod.case)
    apply (simp only: p prod.case)
    apply (insert slot c)
    apply simp
    done
qed

text \<open>
  The theorem of C6 at \<open>busy_dev\<close>: the slot held zeros at the get, and the packets carry
  the 200 bytes \<^verbatim>\<open>0xCD\<close> put after the release.
\<close>

theorem ring_slot_released_before_copy_witness:
  "ring_wf busy_dev \<and> ring_count busy_dev = ring_size busy_dev \<and> (200::nat) \<le> ring_buffer_size busy_dev \<and>
   sock busy_dev \<and> dest_set busy_dev \<and>
   antsdr_ring_get busy_dev = Inr (0, 1600) \<and> ring_buffers busy_dev ! 0 = replicate 1600 0 \<and>
   fst (udp_slot_begin busy_dev 1600) = (1600, 2, 0) \<and>
   concat (map pkt_payload (wire (fst (udp_fragment_loop (\<lambda>p. True) 0 1600 0 2 0 0
     \<lparr>dev = snd (antsdr_ring_put (snd (udp_slot_begin busy_dev 1600)) (replicate 200 0xCD) 200),
        wire = [], packets_sent = 0\<rparr>)))) = replicate 200 0xCD @ replicate 1400 0"
proof -
  have wf: "ring_wf busy_dev"
    by (simp add: ring_wf_def busy_dev_simps fresh_slots_simps)
  have g: "antsdr_ring_get busy_dev = Inr (0, 1600)"
    by (simp add: antsdr_ring_get_def busy_dev_simps)
  have b: "fst (udp_slot_begin busy_dev 1600) = (1600, 2, 0)"
    by (simp add: udp_slot_begin_def Let_def return_buffer_fields busy_dev_simps ANTSDR_MAX_PAYLOAD_SIZE_def)
  have s: "ring_buffers busy_dev ! 0 = replicate 1600 0"
    by (simp add: busy_dev_simps fresh_slots_simps)
  show ?thesis
    using ring_slot_released_before_copy [of busy_dev 200 "\<lambda>p. True" "replicate 200 0xCD"] wf g b s
    by (simp add: busy_dev_simps Let_def split: prod.splits)
qed

subsection \<open>Packetizer\<close>




subsection \<open>Statistics snapshot\<close>

text \<open>
  C9 (as amended). The snapshot that \<^verbatim>\<open>ANTSDR_IOC_GET_STATS\<close> returns contains transfers
  completed, bytes transferred, packets sent, errors and the valid, invalid and
  extracted frame counts. It does not depend on the cumulative missing-frame count,
  which is reported in the header of every packet instead.
\<close>

theorem stats_snapshot_fields:
  "(case antsdr_ioc_get_stats d True of
      Inr s \<Rightarrow>
        transfers_completed s = transfers_completed (stats d) \<and>
        bytes_transferred s = bytes_transferred (stats d) \<and>
        udp_packets_sent s = udp_packets_sent (stats d) \<and>
        errors s = errors (stats d) \<and>
        valid_frames s = valid_frames (stats d) \<and>
        invalid_frames s = invalid_frames (stats d) \<and>
        extracted_frames s = extracted_frames (stats d)
    | Inl e \<Rightarrow> False) \<and>
   antsdr_ioc_get_stats (d\<lparr>missing_frame_count := m\<rparr>) copy_ok = antsdr_ioc_get_stats d copy_ok \<and>
   hdr_missing_frame_count (pkt_header (build_packet d rd pl fid fn k off c)) = missing_frame_count d"
  by (simp add: antsdr_ioc_get_stats_def build_packet_def Let_def)

text \<open>
  C9 as stated fails: two devices that differ only in the missing-frame count, 5 and 0,
  give the same snapshot.
\<close>

theorem stats_snapshot_omits_missing_count:
  "antsdr_ioc_get_stats (zeroed_dev\<lparr>missing_frame_count := 5\<rparr>) True = antsdr_ioc_get_stats zeroed_dev True \<and>
   missing_frame_count (zeroed_dev\<lparr>missing_frame_count := 5\<rparr>) \<noteq> missing_frame_count zeroed_dev"
  by (simp add: antsdr_ioc_get_stats_def zeroed_dev_def)

end
